theory Spec2Isabelle
  imports Complex_Main "HOL-Library.Signed_Division" "HOL-Library.Multiset"
begin

section \<open>Platform constants\<close>

text \<open>
  The program is C. Its \<^verbatim>\<open>int\<close> is taken to be the 32-bit two's complement integer and its
  \<^verbatim>\<open>double\<close> the IEEE 754 binary64 format with round-to-nearest, ties-to-even, each
  operation rounded once (C Annex F, no contraction). Integers are modelled by \<^typ>\<open>int\<close>
  with every range check of the language written out.
\<close>

definition INT_MAX :: int where
  "INT_MAX = 2147483647"

definition INT_MIN :: int where
  "INT_MIN = - 2147483648"

definition in_int_range :: "int \<Rightarrow> bool" where
  "in_int_range z \<longleftrightarrow> INT_MIN \<le> z \<and> z \<le> INT_MAX"

text \<open>The ways in which an execution can leave the behaviour defined by the language.\<close>

datatype fault =
    Modulo_by_zero
  | Signed_overflow
  | Invalid_read
  | Invalid_write
  | Conversion_out_of_range
  | Fclose_null

section \<open>Binary64 arithmetic\<close>

text \<open>
  A double is a finite rational (with \<open>Finite 0\<close> for \<open>+0\<close>), the negative zero, an
  infinity or a NaN. Every operation computes the exact rational result and rounds it once.
\<close>

datatype double = Finite rat | NegZero | PosInf | NegInf | NaN

fun bitlength :: "nat \<Rightarrow> nat" where
  "bitlength n = (if n = 0 then 0 else Suc (bitlength (n div 2)))"

declare bitlength.simps [simp del]

text \<open>\<open>ilog2 a\<close> is the binary exponent of a positive rational: \<open>2^e \<le> a < 2^(e+1)\<close>.\<close>

definition ilog2 :: "rat \<Rightarrow> int" where
  "ilog2 a = (if 1 \<le> a then int (bitlength (nat \<lfloor>a\<rfloor>)) - 1
              else - int (bitlength (nat (\<lceil>1 / a\<rceil> - 1))))"

definition round_half_even :: "rat \<Rightarrow> int" where
  "round_half_even t =
     (let f = \<lfloor>t\<rfloor>; d = t - of_int f
      in if d < 1 / 2 then f else if 1 / 2 < d then f + 1 else if even f then f else f + 1)"

text \<open>
  Rounding of a non-zero exact result: the quantum is \<open>2^(e - 52)\<close>, not below the
  subnormal quantum \<open>2^(-1074)\<close>; a rounded magnitude of \<open>2^1024\<close> or more overflows to
  an infinity, a rounded magnitude of zero underflows to the zero of the same sign.
\<close>

definition round64 :: "rat \<Rightarrow> double" where
  "round64 r =
     (let q = 2 powi (max (ilog2 \<bar>r\<bar> - 52) (- 1074));
          m = round_half_even (\<bar>r\<bar> / q);
          v = of_int m * q
      in if 2 ^ 1024 \<le> v then (if r < 0 then NegInf else PosInf)
         else if m = 0 then (if r < 0 then NegZero else Finite 0)
         else Finite (if r < 0 then - v else v))"

fun sign_bit :: "double \<Rightarrow> bool" where
  "sign_bit (Finite r) = (r < 0)"
| "sign_bit NegZero = True"
| "sign_bit PosInf = False"
| "sign_bit NegInf = True"
| "sign_bit NaN = False"

fun value_of :: "double \<Rightarrow> rat" where
  "value_of (Finite r) = r"
| "value_of _ = 0"

definition is_zero :: "double \<Rightarrow> bool" where
  "is_zero d \<longleftrightarrow> d = Finite 0 \<or> d = NegZero"

definition is_inf :: "double \<Rightarrow> bool" where
  "is_inf d \<longleftrightarrow> d = PosInf \<or> d = NegInf"

definition signed_zero :: "bool \<Rightarrow> double" where
  "signed_zero s = (if s then NegZero else Finite 0)"

definition signed_inf :: "bool \<Rightarrow> double" where
  "signed_inf s = (if s then NegInf else PosInf)"

fun dneg :: "double \<Rightarrow> double" where
  "dneg (Finite r) = (if r = 0 then NegZero else Finite (- r))"
| "dneg NegZero = Finite 0"
| "dneg PosInf = NegInf"
| "dneg NegInf = PosInf"
| "dneg NaN = NaN"

definition dadd :: "double \<Rightarrow> double \<Rightarrow> double" where
  "dadd a b =
     (if a = NaN \<or> b = NaN then NaN
      else if is_inf a \<and> is_inf b then (if a = b then a else NaN)
      else if is_inf a then a
      else if is_inf b then b
      else let r = value_of a + value_of b
           in if r = 0 then signed_zero (sign_bit a \<and> sign_bit b) else round64 r)"

definition dmul :: "double \<Rightarrow> double \<Rightarrow> double" where
  "dmul a b =
     (if a = NaN \<or> b = NaN then NaN
      else if (is_inf a \<and> is_zero b) \<or> (is_zero a \<and> is_inf b) then NaN
      else if is_inf a \<or> is_inf b then signed_inf (sign_bit a \<noteq> sign_bit b)
      else let r = value_of a * value_of b
           in if r = 0 then signed_zero (sign_bit a \<noteq> sign_bit b) else round64 r)"

definition ddiv :: "double \<Rightarrow> double \<Rightarrow> double" where
  "ddiv a b =
     (if a = NaN \<or> b = NaN then NaN
      else if (is_inf a \<and> is_inf b) \<or> (is_zero a \<and> is_zero b) then NaN
      else if is_inf a \<or> is_zero b then signed_inf (sign_bit a \<noteq> sign_bit b)
      else if is_inf b then signed_zero (sign_bit a \<noteq> sign_bit b)
      else let r = value_of a / value_of b
           in if r = 0 then signed_zero (sign_bit a \<noteq> sign_bit b) else round64 r)"

instantiation double :: "{zero, plus, minus, uminus, times, inverse}"
begin

definition zero_double :: double where
  "zero_double = Finite 0"

definition plus_double :: "double \<Rightarrow> double \<Rightarrow> double" where
  "plus_double a b = dadd a b"

definition uminus_double :: "double \<Rightarrow> double" where
  "uminus_double a = dneg a"

definition minus_double :: "double \<Rightarrow> double \<Rightarrow> double" where
  "minus_double a b = dadd a (dneg b)"

definition times_double :: "double \<Rightarrow> double \<Rightarrow> double" where
  "times_double a b = dmul a b"

definition divide_double :: "double \<Rightarrow> double \<Rightarrow> double" where
  "divide_double a b = ddiv a b"

definition inverse_double :: "double \<Rightarrow> double" where
  "inverse_double a = ddiv (Finite 1) a"

instance ..

end

text \<open>The comparison \<^verbatim>\<open>==\<close> of C: a NaN equals nothing, the two zeros are equal.\<close>

definition deq :: "double \<Rightarrow> double \<Rightarrow> bool" where
  "deq a b \<longleftrightarrow> a \<noteq> NaN \<and> b \<noteq> NaN \<and> (a = b \<or> (is_zero a \<and> is_zero b))"

text \<open>Conversions: \<^verbatim>\<open>int\<close> and \<^verbatim>\<open>size_t\<close> to \<^verbatim>\<open>double\<close> round; \<^verbatim>\<open>double\<close> to \<^verbatim>\<open>int\<close>
  truncates toward zero and is undefined outside the range of \<^verbatim>\<open>int\<close>.\<close>

definition double_of_int :: "int \<Rightarrow> double" where
  "double_of_int z = (if z = 0 then Finite 0 else round64 (of_int z))"

definition double_of_size :: "nat \<Rightarrow> double" where
  "double_of_size n = (if n = 0 then Finite 0 else round64 (of_nat n))"

fun double_to_int :: "double \<Rightarrow> int option" where
  "double_to_int (Finite r) =
     (let z = (if r < 0 then \<lceil>r\<rceil> else \<lfloor>r\<rfloor>) in if in_int_range z then Some z else None)"
| "double_to_int NegZero = Some 0"
| "double_to_int _ = None"

section \<open>The vector of integers\<close>

text \<open>
  \<^verbatim>\<open>IntVec\<close>: the allocated block is a list of cells, \<open>None\<close> for a cell never written.
  Allocation is assumed to succeed. A write outside the block is a fault.
\<close>

record IntVec =
  data :: "int option list"
  size_vec :: nat
  capacity :: nat

definition INIT_SIZE :: nat where
  "INIT_SIZE = 256"

definition new_intvec :: IntVec where
  "new_intvec = \<lparr>data = replicate INIT_SIZE None, size_vec = 0, capacity = INIT_SIZE\<rparr>"

definition realloc :: "int option list \<Rightarrow> nat \<Rightarrow> int option list" where
  "realloc cells n = take n (cells @ replicate n None)"

definition vec_append :: "IntVec \<Rightarrow> int \<Rightarrow> fault + IntVec" where
  "vec_append vec i =
     (let vec1 = (if capacity vec \<le> size_vec vec
                  then vec\<lparr>capacity := capacity vec * 2,
                           data := realloc (data vec) (capacity vec * 2)\<rparr>
                  else vec)
      in if size_vec vec1 < length (data vec1)
         then Inr (vec1\<lparr>data := (data vec1)[size_vec vec1 := Some i],
                        size_vec := size_vec vec1 + 1\<rparr>)
         else Inl Invalid_write)"

definition vec_read :: "IntVec \<Rightarrow> nat \<Rightarrow> int option" where
  "vec_read vec i = (if i < length (data vec) then data vec ! i else None)"

section \<open>The gradient\<close>

record Weights =
  w :: double
  b :: double

function gradient_loop ::
  "IntVec \<Rightarrow> IntVec \<Rightarrow> Weights \<Rightarrow> nat \<Rightarrow> double \<Rightarrow> double \<Rightarrow> fault + (double \<times> double)" where
  "gradient_loop x y ws i dj_dw dj_db =
     (if i < size_vec x then
        (case (vec_read x i, vec_read y i) of
           (Some xi, Some yi) \<Rightarrow>
             (let f_wb = w ws * double_of_int xi + b ws;
                  dj_dw_i = (f_wb - double_of_int yi) * double_of_int xi;
                  dj_db_i = f_wb - double_of_int yi
              in gradient_loop x y ws (i + 1) (dj_dw + dj_dw_i) (dj_db + dj_db_i))
         | _ \<Rightarrow> Inl Invalid_read)
      else Inr (dj_dw, dj_db))"
  by pat_completeness auto
termination
  by (relation "measure (\<lambda>(x, y, ws, i, dj_dw, dj_db). size_vec x - i)") auto

declare gradient_loop.simps [simp del]

definition gradient :: "IntVec \<Rightarrow> IntVec \<Rightarrow> Weights \<Rightarrow> fault + Weights" where
  "gradient x y ws =
     (case gradient_loop x y ws 0 0 0 of
        Inl e \<Rightarrow> Inl e
      | Inr (dj_dw, dj_db) \<Rightarrow>
          Inr \<lparr>w = dj_dw / double_of_size (size_vec x), b = dj_db / double_of_size (size_vec x)\<rparr>)"

text \<open>
  The series held by a vector, and the vectors that \<^verbatim>\<open>main\<close> builds: the first
  \<open>size_vec\<close> cells lie inside the block and each holds an \<^verbatim>\<open>int\<close>.
\<close>

definition contents :: "IntVec \<Rightarrow> int list" where
  "contents vec = map the (take (size_vec vec) (data vec))"

definition wf_vec :: "IntVec \<Rightarrow> bool" where
  "wf_vec vec \<longleftrightarrow>
     0 < capacity vec \<and> capacity vec = length (data vec) \<and> size_vec vec \<le> capacity vec \<and>
     list_all (\<lambda>c. case c of None \<Rightarrow> False | Some z \<Rightarrow> in_int_range z)
       (take (size_vec vec) (data vec))"

text \<open>
  The sums of the gradient in closed form: \<open>dsum\<close> accumulates from \<open>0\<close> in index order,
  as the loop does, and \<open>dw_terms\<close>, \<open>db_terms\<close> are the contributions of the samples.
\<close>

definition dsum :: "double list \<Rightarrow> double" where
  "dsum ts = foldl (+) 0 ts"

definition residual :: "Weights \<Rightarrow> int \<Rightarrow> int \<Rightarrow> double" where
  "residual ws xi yi = w ws * double_of_int xi + b ws - double_of_int yi"

definition dw_terms :: "Weights \<Rightarrow> int list \<Rightarrow> int list \<Rightarrow> double list" where
  "dw_terms ws xs ys = map (\<lambda>(xi, yi). residual ws xi yi * double_of_int xi) (zip xs ys)"

definition db_terms :: "Weights \<Rightarrow> int list \<Rightarrow> int list \<Rightarrow> double list" where
  "db_terms ws xs ys = map (\<lambda>(xi, yi). residual ws xi yi) (zip xs ys)"

section \<open>Reading the input-target pairs\<close>

text \<open>
  \<^verbatim>\<open>fscanf(f, "%d %d", &x_temp, &y_temp)\<close> on the rest of the stream: \<^verbatim>\<open>%d\<close> skips white
  space and reads an optional sign and decimal digits; a value outside \<^verbatim>\<open>int\<close> is undefined.
  The result is \<open>Inr (Some (x_temp, y_temp, rest))\<close> when the call returns 2 and
  \<open>Inr None\<close> when it returns less.
\<close>

definition isspace :: "char \<Rightarrow> bool" where
  "isspace c \<longleftrightarrow> c \<in> set [CHR '' '', CHR 0x09, CHR 0x0A, CHR 0x0B, CHR 0x0C, CHR 0x0D]"

definition isdigit :: "char \<Rightarrow> bool" where
  "isdigit c \<longleftrightarrow> c \<in> set ''0123456789''"

definition decimal :: "string \<Rightarrow> int" where
  "decimal ds = foldl (\<lambda>acc c. acc * 10 + (of_char c - 48)) 0 ds"

definition scan_d :: "string \<Rightarrow> (int \<times> string) option" where
  "scan_d s =
     (let s1 = dropWhile isspace s;
          signed = (s1 \<noteq> [] \<and> (hd s1 = CHR ''-'' \<or> hd s1 = CHR ''+''));
          s2 = (if signed then tl s1 else s1);
          ds = takeWhile isdigit s2
      in if ds = [] then None
         else Some (if signed \<and> hd s1 = CHR ''-'' then - decimal ds else decimal ds,
                    dropWhile isdigit s2))"

definition fscanf_dd :: "string \<Rightarrow> fault + (int \<times> int \<times> string) option" where
  "fscanf_dd s =
     (case scan_d s of
        None \<Rightarrow> Inr None
      | Some (x_temp, s1) \<Rightarrow>
          if \<not> in_int_range x_temp then Inl Conversion_out_of_range
          else (case scan_d s1 of
                  None \<Rightarrow> Inr None
                | Some (y_temp, s2) \<Rightarrow>
                    if \<not> in_int_range y_temp then Inl Conversion_out_of_range
                    else Inr (Some (x_temp, y_temp, s2))))"

function read_pairs :: "string \<Rightarrow> IntVec \<Rightarrow> IntVec \<Rightarrow> fault + (IntVec \<times> IntVec)" where
  "read_pairs s x y =
     (case fscanf_dd s of
        Inl e \<Rightarrow> Inl e
      | Inr None \<Rightarrow> Inr (x, y)
      | Inr (Some (x_temp, y_temp, s')) \<Rightarrow>
          (case vec_append x x_temp of
             Inl e \<Rightarrow> Inl e
           | Inr x' \<Rightarrow>
               (case vec_append y y_temp of
                  Inl e \<Rightarrow> Inl e
                | Inr y' \<Rightarrow> read_pairs s' x' y')))"
  by pat_completeness auto
termination
proof (relation "measure (\<lambda>(s, x, y). length s)")
  show "wf (measure (\<lambda>(s, x, y). length s))" by simp
next
  fix s :: string and x y :: IntVec and r p x_temp q y_temp s' x' y'
  assume f: "fscanf_dd s = Inr r" "r = Some p" "(x_temp, q) = p" "(y_temp, s') = q"
  have shrink: "length t' < length t" if "scan_d t = Some (a, t')" for t t' a
  proof -
    define s1 where "s1 = dropWhile isspace t"
    define s2 where "s2 = (if s1 \<noteq> [] \<and> (hd s1 = CHR ''-'' \<or> hd s1 = CHR ''+'') then tl s1 else s1)"
    from that have ne: "takeWhile isdigit s2 \<noteq> []" and t': "t' = dropWhile isdigit s2"
      by (auto simp: scan_d_def Let_def s1_def s2_def split: if_splits)
    have "length (takeWhile isdigit s2) + length (dropWhile isdigit s2) = length s2"
      by (metis length_append takeWhile_dropWhile_id)
    with ne have "length t' < length s2" unfolding t' by (cases "takeWhile isdigit s2") auto
    moreover have "length s2 \<le> length s1" by (simp add: s2_def)
    moreover have "length s1 \<le> length t" unfolding s1_def by (rule length_dropWhile_le)
    ultimately show ?thesis by linarith
  qed
  from f obtain s1 where "scan_d s = Some (x_temp, s1)" "scan_d s1 = Some (y_temp, s')"
    by (auto simp: fscanf_dd_def split: option.splits if_splits prod.splits)
  then have "length s' < length s" using shrink [of s x_temp s1] shrink [of s1 y_temp s'] by linarith
  then show "((s', x', y'), (s, x, y)) \<in> measure (\<lambda>(s, x, y). length s)" by simp
qed

declare read_pairs.simps [simp del]

text \<open>
  The records of the stream, for stating what the loop stores: the pairs assigned by the
  successive calls of \<^verbatim>\<open>fscanf\<close> that return 2, up to the first call that does not.
\<close>

function scanned_pairs :: "string \<Rightarrow> (int \<times> int) list" where
  "scanned_pairs s =
     (case fscanf_dd s of
        Inr (Some (x_temp, y_temp, s')) \<Rightarrow> (x_temp, y_temp) # scanned_pairs s'
      | _ \<Rightarrow> [])"
  by pat_completeness auto
termination
proof (relation "measure length")
  show "wf (measure length)" by simp
next
  fix s :: string and r p x_temp q y_temp s'
  assume f: "fscanf_dd s = Inr r" "r = Some p" "(x_temp, q) = p" "(y_temp, s') = q"
  have shrink: "length t' < length t" if "scan_d t = Some (a, t')" for t t' a
  proof -
    define s1 where "s1 = dropWhile isspace t"
    define s2 where "s2 = (if s1 \<noteq> [] \<and> (hd s1 = CHR ''-'' \<or> hd s1 = CHR ''+'') then tl s1 else s1)"
    from that have ne: "takeWhile isdigit s2 \<noteq> []" and t': "t' = dropWhile isdigit s2"
      by (auto simp: scan_d_def Let_def s1_def s2_def split: if_splits)
    have "length (takeWhile isdigit s2) + length (dropWhile isdigit s2) = length s2"
      by (metis length_append takeWhile_dropWhile_id)
    with ne have "length t' < length s2" unfolding t' by (cases "takeWhile isdigit s2") auto
    moreover have "length s2 \<le> length s1" by (simp add: s2_def)
    moreover have "length s1 \<le> length t" unfolding s1_def by (rule length_dropWhile_le)
    ultimately show ?thesis by linarith
  qed
  from f obtain s1 where "scan_d s = Some (x_temp, s1)" "scan_d s1 = Some (y_temp, s')"
    by (auto simp: fscanf_dd_def split: option.splits if_splits prod.splits)
  then have "length s' < length s" using shrink [of s x_temp s1] shrink [of s1 y_temp s'] by linarith
  then show "(s', s) \<in> measure length" by simp
qed

declare scanned_pairs.simps [simp del]

section \<open>The settings\<close>

text \<open>
  The variables \<^verbatim>\<open>w\<close>, \<^verbatim>\<open>b\<close>, \<^verbatim>\<open>alpha\<close>, \<^verbatim>\<open>iterations\<close>, \<^verbatim>\<open>every\<close> and \<^verbatim>\<open>output\<close> (\<open>output_name\<close>) of
  \<^verbatim>\<open>main\<close>, with their initial values (\<open>init_w\<close> and \<open>init_b\<close> are \<^verbatim>\<open>w\<close> and \<^verbatim>\<open>b\<close>).
  The literal \<^verbatim>\<open>0.00001\<close> is the double nearest to it.
\<close>

record settings =
  init_w :: double
  init_b :: double
  alpha :: double
  iterations :: int
  every :: int
  output_name :: string

definition default_settings :: settings where
  "default_settings =
     \<lparr>init_w = Finite 0, init_b = Finite 0, alpha = round64 (1 / 100000),
      iterations = 100000, every = 100, output_name = []\<rparr>"

text \<open>What the program writes to the error stream.\<close>

datatype message = Usage | Perror string | Unknown_key string

text \<open>
  \<^verbatim>\<open>fscanf(f, "%10s %100s", key, value)\<close>: \<^verbatim>\<open>%ns\<close> skips white space and reads at most
  \<open>n\<close> characters that are not white space. \<open>Some\<close> when the call returns 2.
\<close>

definition scan_s :: "nat \<Rightarrow> string \<Rightarrow> (string \<times> string) option" where
  "scan_s n s =
     (let s1 = dropWhile isspace s;
          tok = take n (takeWhile (\<lambda>c. \<not> isspace c) s1)
      in if tok = [] then None else Some (tok, drop (length tok) s1))"

definition fscanf_ss :: "string \<Rightarrow> (string \<times> string \<times> string) option" where
  "fscanf_ss s =
     (case scan_s 10 s of
        None \<Rightarrow> None
      | Some (key, s1) \<Rightarrow>
          (case scan_s 100 s1 of
             None \<Rightarrow> None
           | Some (val, s2) \<Rightarrow> Some (key, val, s2)))"

text \<open>
  The body of the loop over the settings file. \<^verbatim>\<open>atof\<close> is the library's; it is a
  parameter. Assigning its result to an \<^verbatim>\<open>int\<close> converts, which is undefined out of range.
  The state is the settings and the messages written so far.
\<close>

definition set_option ::
  "(string \<Rightarrow> double) \<Rightarrow> string \<Rightarrow> string \<Rightarrow> settings \<times> message list
     \<Rightarrow> fault + (settings \<times> message list)" where
  "set_option atof key val st =
     (case st of (cfg, errs) \<Rightarrow>
        if key = ''w'' then Inr (cfg\<lparr>init_w := atof val\<rparr>, errs)
        else if key = ''b'' then Inr (cfg\<lparr>init_b := atof val\<rparr>, errs)
        else if key = ''alpha'' then Inr (cfg\<lparr>alpha := atof val\<rparr>, errs)
        else if key = ''iterations'' then
          (case double_to_int (atof val) of
             None \<Rightarrow> Inl Conversion_out_of_range
           | Some z \<Rightarrow> Inr (cfg\<lparr>iterations := z\<rparr>, errs))
        else if key = ''log-every'' then
          (case double_to_int (atof val) of
             None \<Rightarrow> Inl Conversion_out_of_range
           | Some z \<Rightarrow> Inr (cfg\<lparr>every := z\<rparr>, errs))
        else if key = ''output'' then Inr (cfg\<lparr>output_name := take 100 val\<rparr>, errs)
        else Inr (cfg, errs @ [Unknown_key key]))"

function read_settings ::
  "(string \<Rightarrow> double) \<Rightarrow> string \<Rightarrow> settings \<times> message list
     \<Rightarrow> fault + (settings \<times> message list)" where
  "read_settings atof s st =
     (case fscanf_ss s of
        None \<Rightarrow> Inr st
      | Some (key, val, s') \<Rightarrow>
          (case set_option atof key val st of
             Inl e \<Rightarrow> Inl e
           | Inr st' \<Rightarrow> read_settings atof s' st'))"
  by pat_completeness auto
termination
proof (relation "measure (\<lambda>(atof, s, st). length s)")
  show "wf (measure (\<lambda>(atof, s, st). length s))" by simp
next
  fix atof :: "string \<Rightarrow> double" and s :: string and st st' :: "settings \<times> message list"
    and p key q val s'
  assume f: "fscanf_ss s = Some p" "(key, q) = p" "(val, s') = q"
  have shrink: "length t' < length t" if "scan_s n t = Some (a, t')" for n t t' a
  proof -
    define s1 where "s1 = dropWhile isspace t"
    from that have ne: "a \<noteq> []" and a: "a = take n (takeWhile (\<lambda>c. \<not> isspace c) s1)"
      and t': "t' = drop (length a) s1"
      by (auto simp: scan_s_def Let_def s1_def split: if_splits)
    from a have "length a \<le> length s1"
      by (simp add: min.coboundedI1 length_takeWhile_le)
    with ne have "length t' < length s1" unfolding t' by (cases a) auto
    moreover have "length s1 \<le> length t" unfolding s1_def by (rule length_dropWhile_le)
    ultimately show ?thesis by linarith
  qed
  from f obtain s1 where "scan_s 10 s = Some (key, s1)" "scan_s 100 s1 = Some (val, s')"
    by (auto simp: fscanf_ss_def split: option.splits prod.splits)
  then have "length s' < length s" using shrink [of 10 s key s1] shrink [of 100 s1 val s'] by linarith
  then show "((atof, s', st'), (atof, s, st)) \<in> measure (\<lambda>(atof, s, st). length s)" by simp
qed

declare read_settings.simps [simp del]

text \<open>
  For stating what the loop over the settings file computes: the records of the stream (the
  key and value assigned by each call of \<^verbatim>\<open>fscanf\<close> that returns 2), the last value given
  for a key, and the documented defaults overlaid with the last value of each recognised key.
\<close>

function scanned_settings :: "string \<Rightarrow> (string \<times> string) list" where
  "scanned_settings s =
     (case fscanf_ss s of
        None \<Rightarrow> []
      | Some (key, val, s') \<Rightarrow> (key, val) # scanned_settings s')"
  by pat_completeness auto
termination
proof (relation "measure length")
  show "wf (measure length)" by simp
next
  fix s :: string and p key q val s'
  assume f: "fscanf_ss s = Some p" "(key, q) = p" "(val, s') = q"
  have shrink: "length t' < length t" if "scan_s n t = Some (a, t')" for n t t' a
  proof -
    define s1 where "s1 = dropWhile isspace t"
    from that have ne: "a \<noteq> []" and a: "a = take n (takeWhile (\<lambda>c. \<not> isspace c) s1)"
      and t': "t' = drop (length a) s1"
      by (auto simp: scan_s_def Let_def s1_def split: if_splits)
    from a have "length a \<le> length s1"
      by (simp add: min.coboundedI1 length_takeWhile_le)
    with ne have "length t' < length s1" unfolding t' by (cases a) auto
    moreover have "length s1 \<le> length t" unfolding s1_def by (rule length_dropWhile_le)
    ultimately show ?thesis by linarith
  qed
  from f obtain s1 where "scan_s 10 s = Some (key, s1)" "scan_s 100 s1 = Some (val, s')"
    by (auto simp: fscanf_ss_def split: option.splits prod.splits)
  then have "length s' < length s" using shrink [of 10 s key s1] shrink [of 100 s1 val s'] by linarith
  then show "(s', s) \<in> measure length" by simp
qed

declare scanned_settings.simps [simp del]

definition last_value :: "string \<Rightarrow> (string \<times> string) list \<Rightarrow> string option" where
  "last_value key kvs = map_of (rev kvs) key"

definition recognized :: "string list" where
  "recognized = [''w'', ''b'', ''alpha'', ''iterations'', ''log-every'', ''output'']"

definition overlay_defaults :: "(string \<Rightarrow> double) \<Rightarrow> (string \<times> string) list \<Rightarrow> settings" where
  "overlay_defaults atof kvs =
     \<lparr>init_w = (case last_value ''w'' kvs of None \<Rightarrow> Finite 0 | Some v \<Rightarrow> atof v),
      init_b = (case last_value ''b'' kvs of None \<Rightarrow> Finite 0 | Some v \<Rightarrow> atof v),
      alpha = (case last_value ''alpha'' kvs of None \<Rightarrow> round64 (1 / 100000) | Some v \<Rightarrow> atof v),
      iterations = (case last_value ''iterations'' kvs of
                      None \<Rightarrow> 100000 | Some v \<Rightarrow> the (double_to_int (atof v))),
      every = (case last_value ''log-every'' kvs of
                 None \<Rightarrow> 100 | Some v \<Rightarrow> the (double_to_int (atof v))),
      output_name = (case last_value ''output'' kvs of None \<Rightarrow> [] | Some v \<Rightarrow> v)\<rparr>"

text \<open>The values that the conversion to \<^verbatim>\<open>int\<close> does not define.\<close>

definition unconvertible :: "(string \<Rightarrow> double) \<Rightarrow> string \<times> string \<Rightarrow> bool" where
  "unconvertible atof kv \<longleftrightarrow>
     (fst kv = ''iterations'' \<or> fst kv = ''log-every'') \<and> double_to_int (atof (snd kv)) = None"

text \<open>The loop body applied to a list of records, stopping at a fault.\<close>

fun apply_options ::
  "(string \<Rightarrow> double) \<Rightarrow> (string \<times> string) list \<Rightarrow> settings \<times> message list
     \<Rightarrow> fault + (settings \<times> message list)" where
  "apply_options atof [] st = Inr st"
| "apply_options atof ((key, val) # kvs) st =
     (case set_option atof key val st of
        Inl e \<Rightarrow> Inl e
      | Inr st' \<Rightarrow> apply_options atof kvs st')"

section \<open>The training loop\<close>

text \<open>
  The loop of \<^verbatim>\<open>main\<close> over \<^verbatim>\<open>i\<close>. A progress record is the triple printed by
  \<^verbatim>\<open>fprintf\<close>. The result holds the records printed, the weights, and the fault that stopped
  the loop, if any: a failed read in \<^verbatim>\<open>gradient\<close>, \<^verbatim>\<open>i % every\<close> with \<^verbatim>\<open>every\<close> zero (or
  overflowing), \<^verbatim>\<open>i++\<close> at \<^verbatim>\<open>INT_MAX\<close>.
\<close>

type_synonym progress = "int \<times> double \<times> double"

record training =
  fault :: "fault option"
  weights :: Weights
  printed :: "progress list"

function training_loop ::
  "IntVec \<Rightarrow> IntVec \<Rightarrow> settings \<Rightarrow> int \<Rightarrow> Weights \<Rightarrow> progress list \<Rightarrow> training" where
  "training_loop x y cfg i weights0 out =
     (if i \<le> iterations cfg then
        (case gradient x y weights0 of
           Inl e \<Rightarrow> \<lparr>fault = Some e, weights = weights0, printed = out\<rparr>
         | Inr ws \<Rightarrow>
             (let weights1 = \<lparr>w = w weights0 - alpha cfg * w ws, b = b weights0 - alpha cfg * b ws\<rparr>
              in if every cfg = 0 then
                   \<lparr>fault = Some Modulo_by_zero, weights = weights1, printed = out\<rparr>
                 else if i = INT_MIN \<and> every cfg = - 1 then
                   \<lparr>fault = Some Signed_overflow, weights = weights1, printed = out\<rparr>
                 else
                   (let out1 = (if i smod every cfg = 0 then out @ [(i, w weights1, b weights1)]
                                else out)
                    in if i = INT_MAX then
                         \<lparr>fault = Some Signed_overflow, weights = weights1, printed = out1\<rparr>
                       else training_loop x y cfg (i + 1) weights1 out1)))
      else \<lparr>fault = None, weights = weights0, printed = out\<rparr>)"
  by pat_completeness auto
termination
  by (relation "measure (\<lambda>(x, y, cfg, i, weights0, out). nat (iterations cfg + 1 - i))") auto

declare training_loop.simps [simp del]

text \<open>
  One iteration's effect on the weights, and the weights after \<open>k\<close> iterations, for stating
  what the loop computes.
\<close>

definition descend :: "IntVec \<Rightarrow> IntVec \<Rightarrow> settings \<Rightarrow> Weights \<Rightarrow> Weights" where
  "descend x y cfg ws =
     (case gradient x y ws of
        Inl e \<Rightarrow> ws
      | Inr g \<Rightarrow> \<lparr>w = w ws - alpha cfg * w g, b = b ws - alpha cfg * b g\<rparr>)"

definition weights_after :: "IntVec \<Rightarrow> IntVec \<Rightarrow> settings \<Rightarrow> nat \<Rightarrow> Weights" where
  "weights_after x y cfg k = (descend x y cfg ^^ k) \<lparr>w = init_w cfg, b = init_b cfg\<rparr>"

section \<open>The program\<close>

text \<open>
  What \<^verbatim>\<open>main\<close> sees of its environment: the number of arguments, the contents of the two
  files named by them (\<open>None\<close> when \<^verbatim>\<open>fopen\<close> fails), and whether a file can be opened for
  writing. The run's result: the exit status or the fault, the progress records written to
  standard output and to the output file, and the messages on the error stream.
\<close>

record environment =
  argc :: int
  pairs_file :: "string option"
  settings_file :: "string option"
  writable :: "string \<Rightarrow> bool"

datatype status = Exit int | Undefined fault

record run =
  status :: status
  stdout :: "progress list"
  file_out :: "progress list"
  stderr :: "message list"

definition main :: "(string \<Rightarrow> double) \<Rightarrow> environment \<Rightarrow> run" where
  "main atof env =
     (if argc env < 2 \<or> 3 < argc env then
        \<lparr>status = Exit 1, stdout = [], file_out = [], stderr = [Usage]\<rparr>
      else case pairs_file env of
        None \<Rightarrow>
          \<lparr>status = Exit 1, stdout = [], file_out = [],
           stderr = [Perror ''Error opening target-value file'']\<rparr>
      | Some pairs \<Rightarrow>
          (case read_pairs pairs new_intvec new_intvec of
             Inl e \<Rightarrow> \<lparr>status = Undefined e, stdout = [], file_out = [], stderr = []\<rparr>
           | Inr (x, y) \<Rightarrow>
               if argc env = 3 \<and> settings_file env = None then
                 \<lparr>status = Exit 1, stdout = [], file_out = [],
                  stderr = [Perror ''Error opening settings file'']\<rparr>
               else
                 (case (if argc env = 3
                        then read_settings atof (the (settings_file env)) (default_settings, [])
                        else Inr (default_settings, [])) of
                    Inl e \<Rightarrow> \<lparr>status = Undefined e, stdout = [], file_out = [], stderr = []\<rparr>
                  | Inr (cfg, errs) \<Rightarrow>
                      if output_name cfg \<noteq> [] \<and> \<not> writable env (output_name cfg) then
                        \<lparr>status = Exit 1, stdout = [], file_out = [],
                         stderr = errs @ [Perror ''Error Opening File'']\<rparr>
                      else
                        (let t = training_loop x y cfg 0 \<lparr>w = init_w cfg, b = init_b cfg\<rparr> []
                         in \<lparr>status =
                               (case fault t of
                                  Some e \<Rightarrow> Undefined e
                                | None \<Rightarrow>
                                    if output_name cfg = [] then Undefined Fclose_null else Exit 0),
                             stdout = (if output_name cfg = [] then printed t else []),
                             file_out = (if output_name cfg = [] then [] else printed t),
                             stderr = errs\<rparr>))))"

section \<open>Facts about the arithmetic\<close>

lemma bitlength_upper: "n < 2 ^ bitlength n"
proof (induction n rule: bitlength.induct)
  case (1 n)
  show ?case
  proof (cases "n = 0")
    case True
    then show ?thesis by (simp add: bitlength.simps)
  next
    case False
    with 1 have "n div 2 < 2 ^ bitlength (n div 2)" by simp
    then have "n < 2 * 2 ^ bitlength (n div 2)" by linarith
    with False show ?thesis by (simp add: bitlength.simps [of n])
  qed
qed

lemma bitlength_lower: "0 < n \<Longrightarrow> 2 ^ (bitlength n - 1) \<le> n"
proof (induction n rule: bitlength.induct)
  case (1 n)
  then have pos: "n \<noteq> 0" by simp
  show ?case
  proof (cases "n div 2 = 0")
    case True
    with pos have "n = 1" by linarith
    then show ?thesis by (simp add: bitlength.simps)
  next
    case False
    with 1 pos have ih: "2 ^ (bitlength (n div 2) - 1) \<le> n div 2" by simp
    from False have "bitlength (n div 2) \<noteq> 0" by (simp add: bitlength.simps [of "n div 2"])
    then have "(2::nat) ^ bitlength (n div 2) = 2 * 2 ^ (bitlength (n div 2) - 1)"
      by (cases "bitlength (n div 2)") simp_all
    with ih have "2 ^ bitlength (n div 2) \<le> n" by linarith
    with pos show ?thesis by (simp add: bitlength.simps [of n])
  qed
qed

lemma bitlength_pos: "0 < n \<Longrightarrow> 0 < bitlength n"
  by (simp add: bitlength.simps [of n])

lemma round_half_even_of_int: "round_half_even (of_int n) = n"
  by (simp add: round_half_even_def)

lemma round_half_even_ge_floor: "\<lfloor>t\<rfloor> \<le> round_half_even t"
  by (simp add: round_half_even_def Let_def)

text \<open>exponent of a rational at least one\<close>
lemma ilog2_ge1:
  assumes "1 \<le> a"
  shows "0 \<le> ilog2 a" and "2 ^ nat (ilog2 a) \<le> a" and "a < 2 ^ (nat (ilog2 a) + 1)"
proof -
  let ?n = "nat \<lfloor>a\<rfloor>"
  from assms have fl: "1 \<le> \<lfloor>a\<rfloor>" by simp
  then have npos: "0 < ?n" by simp
  have il: "ilog2 a = int (bitlength ?n) - 1" using assms by (simp add: ilog2_def)
  from bitlength_pos [OF npos] il show "0 \<le> ilog2 a" by simp
  from bitlength_pos [OF npos] il have nat_il: "nat (ilog2 a) = bitlength ?n - 1" by simp
  have "(2::nat) ^ (bitlength ?n - 1) \<le> ?n" by (rule bitlength_lower [OF npos])
  then have "int (2 ^ (bitlength ?n - 1)) \<le> \<lfloor>a\<rfloor>" using fl by linarith
  then have "(of_int (int (2 ^ (bitlength ?n - 1))) :: rat) \<le> a" by (simp only: le_floor_iff)
  then show "2 ^ nat (ilog2 a) \<le> a" by (simp add: nat_il)
  have "?n < 2 ^ bitlength ?n" by (rule bitlength_upper)
  then have "\<lfloor>a\<rfloor> < int (2 ^ bitlength ?n)" using fl by linarith
  then have "a < of_int (int (2 ^ bitlength ?n))" by (simp only: floor_less_iff)
  moreover have "bitlength ?n = nat (ilog2 a) + 1" using bitlength_pos [OF npos] nat_il by simp
  ultimately show "a < 2 ^ (nat (ilog2 a) + 1)" by simp
qed

lemma round64_of_int_exact:
  assumes "z \<noteq> 0" and "\<bar>z\<bar> < 2 ^ 53"
  shows "round64 (of_int z) = Finite (of_int z)"
proof -
  let ?a = "\<bar>of_int z :: rat\<bar>"
  let ?e = "nat (ilog2 ?a)"
  have "1 \<le> \<bar>z\<bar>" using assms(1) by linarith
  then have "(of_int 1 :: rat) \<le> of_int \<bar>z\<bar>" by (simp only: of_int_le_iff)
  then have a1: "1 \<le> ?a" by simp
  note il = ilog2_ge1 [OF a1]
  have "(of_int \<bar>z\<bar> :: rat) < of_int (2 ^ 53)" using assms(2) by (simp only: of_int_less_iff)
  then have a53: "?a < 2 ^ 53" by simp
  with il(2) have "(2::rat) ^ ?e < 2 ^ 53" by linarith
  then have "?e < 53" by (rule power_less_imp_less_exp [rotated]) simp
  then have e52: "?e \<le> 52" by simp
  then have mx: "max (ilog2 ?a - 52) (- 1074) = - int (52 - ?e)" using il(1) by linarith
  have q: "(2::rat) powi (- int (52 - ?e)) = 1 / 2 ^ (52 - ?e)"
    by (simp add: power_int_minus field_simps)
  have t: "?a / (1 / 2 ^ (52 - ?e)) = of_int (\<bar>z\<bar> * 2 ^ (52 - ?e))" by simp
  have m: "round_half_even (?a / (1 / 2 ^ (52 - ?e))) = \<bar>z\<bar> * 2 ^ (52 - ?e)"
    unfolding t by (rule round_half_even_of_int)
  have v: "of_int (\<bar>z\<bar> * 2 ^ (52 - ?e)) * (1 / 2 ^ (52 - ?e)) = ?a" by simp
  have big: "\<not> (2::rat) ^ 1024 \<le> ?a"
  proof -
    have "(2::rat) ^ 53 \<le> 2 ^ 1024" by (rule power_increasing) simp_all
    with a53 show ?thesis by linarith
  qed
  have nz: "\<bar>z\<bar> * 2 ^ (52 - ?e) \<noteq> 0" using assms(1) by simp
  show ?thesis
    unfolding round64_def Let_def mx q m v
    using big nz by (auto simp: abs_if split: if_splits)
qed

lemma double_of_int_exact:
  assumes "in_int_range z"
  shows "double_of_int z = Finite (of_int z)"
proof (cases "z = 0")
  case True
  then show ?thesis by (simp add: double_of_int_def)
next
  case False
  from assms have "\<bar>z\<bar> \<le> 2147483648"
    unfolding in_int_range_def INT_MIN_def INT_MAX_def by linarith
  moreover have "(2147483648::int) < 2 ^ 53" by simp
  ultimately have "\<bar>z\<bar> < 2 ^ 53" by (rule le_less_trans)
  with False show ?thesis by (simp add: double_of_int_def round64_of_int_exact)
qed

lemma double_of_size_positive:
  assumes "0 < n"
  shows "double_of_size n = PosInf \<or> (\<exists>v. 0 < v \<and> double_of_size n = Finite v)"
proof -
  let ?a = "of_nat n :: rat"
  let ?k = "max (ilog2 ?a - 52) (- 1074)"
  let ?q = "(2::rat) powi ?k"
  let ?m = "round_half_even (?a / ?q)"
  have a1: "1 \<le> ?a" using assms by simp
  note il = ilog2_ge1 [OF a1]
  have qpos: "0 < ?q" by (simp add: zero_less_power_int)
  have "?k \<le> ilog2 ?a" using il(1) by simp
  then have "?q \<le> 2 powi (ilog2 ?a)" by (rule power_int_increasing) simp
  also have "\<dots> = 2 ^ nat (ilog2 ?a)" using il(1) by (simp add: power_int_def)
  also have "\<dots> \<le> ?a" by (rule il(2))
  finally have "?q \<le> ?a" .
  with qpos have "1 \<le> ?a / ?q" by (simp add: le_divide_eq)
  then have "1 \<le> \<lfloor>?a / ?q\<rfloor>" by simp
  with round_half_even_ge_floor [of "?a / ?q"] have m1: "1 \<le> ?m" by linarith
  then have vpos: "0 < of_int ?m * ?q" using qpos by simp
  have abs: "\<bar>?a\<bar> = ?a" by simp
  have nneg: "\<not> ?a < 0" by simp
  show ?thesis
    using assms m1 vpos unfolding double_of_size_def round64_def Let_def abs
    by (auto simp del: of_nat_less_0_iff)
qed

lemma zero_div_size:
  assumes "0 < n"
  shows "(0::double) / double_of_size n = 0"
  using double_of_size_positive [OF assms]
  by (auto simp: divide_double_def zero_double_def ddiv_def is_inf_def is_zero_def signed_zero_def)

lemma zero_plus_zero:
  assumes "is_zero t"
  shows "(0::double) + t = 0"
  using assms
  by (auto simp: plus_double_def zero_double_def dadd_def is_inf_def is_zero_def signed_zero_def)

lemma dsum_zeros:
  assumes "\<forall>t \<in> set ts. is_zero t"
  shows "dsum ts = 0"
proof -
  have "foldl (+) (0::double) ts = 0" using assms
    by (induction ts) (simp_all add: zero_plus_zero)
  then show ?thesis by (simp add: dsum_def)
qed

lemma deq_minus_zero:
  assumes "deq f (Finite r)"
  shows "is_zero (f - Finite r)"
proof -
  from assms have "f = Finite r \<or> (is_zero f \<and> r = 0)" by (auto simp: deq_def is_zero_def)
  then show ?thesis
    by (auto simp: minus_double_def dadd_def is_inf_def is_zero_def signed_zero_def)
qed

lemma zero_times_finite:
  assumes "is_zero t"
  shows "is_zero (t * Finite r)"
  using assms
  by (auto simp: times_double_def dmul_def is_inf_def is_zero_def signed_zero_def)

lemma wf_vec_length: "wf_vec vec \<Longrightarrow> length (contents vec) = size_vec vec"
  by (simp add: wf_vec_def contents_def)

lemma wf_vec_read:
  assumes "wf_vec vec" and "i < size_vec vec"
  shows "vec_read vec i = Some (contents vec ! i)" and "in_int_range (contents vec ! i)"
proof -
  from assms have len: "i < length (data vec)" by (simp add: wf_vec_def)
  from assms have "data vec ! i \<in> set (take (size_vec vec) (data vec))"
    by (metis len in_set_conv_nth length_take min_less_iff_conj nth_take)
  with assms(1) have "case data vec ! i of None \<Rightarrow> False | Some z \<Rightarrow> in_int_range z"
    by (simp add: wf_vec_def list_all_iff)
  then obtain z where z: "data vec ! i = Some z" "in_int_range z" by (auto split: option.splits)
  have "contents vec ! i = z" using assms(2) len z(1) by (simp add: contents_def)
  with z len show "vec_read vec i = Some (contents vec ! i)" and "in_int_range (contents vec ! i)"
    by (simp_all add: vec_read_def)
qed

lemma wf_vec_range: "wf_vec vec \<Longrightarrow> z \<in> set (contents vec) \<Longrightarrow> in_int_range z"
  by (metis in_set_conv_nth wf_vec_length wf_vec_read(2))

lemma gradient_loop_closed:
  assumes "wf_vec x" and "wf_vec y" and "size_vec x = size_vec y" and "i \<le> size_vec x"
  shows "gradient_loop x y ws i a c =
           Inr (foldl (+) a (drop i (dw_terms ws (contents x) (contents y))),
                foldl (+) c (drop i (db_terms ws (contents x) (contents y))))"
  using assms(4)
proof (induction "size_vec x - i" arbitrary: i a c)
  case 0
  then have "i = size_vec x" by simp
  then show ?case
    using assms(1,2,3)
    by (subst gradient_loop.simps) (simp add: dw_terms_def db_terms_def wf_vec_length)
next
  case (Suc k)
  then have lt: "i < size_vec x" by simp
  let ?xs = "contents x" and ?ys = "contents y"
  have lz: "i < length (zip ?xs ?ys)" using lt assms(1,2,3) by (simp add: wf_vec_length)
  have rx: "vec_read x i = Some (?xs ! i)" by (rule wf_vec_read(1) [OF assms(1) lt])
  have ry: "vec_read y i = Some (?ys ! i)" using wf_vec_read(1) [OF assms(2)] lt assms(3) by simp
  have dw: "drop i (dw_terms ws ?xs ?ys) =
      residual ws (?xs ! i) (?ys ! i) * double_of_int (?xs ! i) # drop (Suc i) (dw_terms ws ?xs ?ys)"
    using lz by (simp add: dw_terms_def Cons_nth_drop_Suc [symmetric])
  have db: "drop i (db_terms ws ?xs ?ys) =
      residual ws (?xs ! i) (?ys ! i) # drop (Suc i) (db_terms ws ?xs ?ys)"
    using lz by (simp add: db_terms_def Cons_nth_drop_Suc [symmetric])
  have "k = size_vec x - Suc i" using Suc(2) by simp
  moreover have "Suc i \<le> size_vec x" using lt by simp
  ultimately have ih: "gradient_loop x y ws (Suc i) a' c' =
           Inr (foldl (+) a' (drop (Suc i) (dw_terms ws ?xs ?ys)),
                foldl (+) c' (drop (Suc i) (db_terms ws ?xs ?ys)))" for a' c'
    by (rule Suc(1))
  show ?case
    by (subst gradient_loop.simps) (simp add: lt rx ry dw db ih Let_def residual_def)
qed

lemma gradient_closed:
  assumes "wf_vec x" and "wf_vec y" and "size_vec x = size_vec y"
  shows "gradient x y ws =
           Inr \<lparr>w = dsum (dw_terms ws (contents x) (contents y)) / double_of_size (size_vec x),
                b = dsum (db_terms ws (contents x) (contents y)) / double_of_size (size_vec x)\<rparr>"
  using gradient_loop_closed [OF assms, of 0 ws 0 0] by (simp add: gradient_def dsum_def)

lemma zip_as_indices:
  assumes "length xs = length ys"
  shows "map (\<lambda>(xi, yi). f xi yi) (zip xs ys) = map (\<lambda>i. f (xs ! i) (ys ! i)) [0..<length xs]"
  using assms by (intro nth_equalityI) simp_all

lemma rat_floor_numeral [simp]:
  "\<lfloor>(numeral n :: rat) / numeral d\<rfloor> = numeral n div numeral d"
  using floor_divide_of_int_eq [of "numeral n" "numeral d", where ?'a = rat] by simp

lemma rat_ceiling_numeral [simp]:
  "\<lceil>(numeral n :: rat) / numeral d\<rceil> = - (- numeral n div numeral d)"
  using ceiling_divide_eq_div [of "numeral n" "numeral d", where ?'a = rat] by simp

lemmas double_eval =
  round64_def ilog2_def round_half_even_def bitlength.simps Let_def
  plus_double_def minus_double_def times_double_def divide_double_def zero_double_def
  dadd_def dmul_def ddiv_def is_zero_def is_inf_def signed_zero_def signed_inf_def
  double_of_int_def double_of_size_def deq_def

lemmas vec_eval = wf_vec_def contents_def in_int_range_def INT_MIN_def INT_MAX_def

section \<open>Facts about the training loop\<close>

lemma descend_gradient:
  assumes "wf_vec x" and "wf_vec y" and "size_vec x = size_vec y"
  obtains g where "gradient x y ws = Inr g"
    and "descend x y cfg ws = \<lparr>w = w ws - alpha cfg * w g, b = b ws - alpha cfg * b g\<rparr>"
  using gradient_closed [OF assms, of ws] by (simp add: descend_def)

lemma training_loop_exit:
  "iterations cfg < i \<Longrightarrow>
     training_loop x y cfg i ws out = \<lparr>fault = None, weights = ws, printed = out\<rparr>"
  by (subst training_loop.simps) simp

lemma training_loop_modulo_by_zero:
  assumes "wf_vec x" and "wf_vec y" and "size_vec x = size_vec y"
    and "every cfg = 0" and "i \<le> iterations cfg"
  shows "training_loop x y cfg i ws out =
           \<lparr>fault = Some Modulo_by_zero, weights = descend x y cfg ws, printed = out\<rparr>"
proof -
  obtain g where g: "gradient x y ws = Inr g"
    and d: "descend x y cfg ws = \<lparr>w = w ws - alpha cfg * w g, b = b ws - alpha cfg * b g\<rparr>"
    by (rule descend_gradient [OF assms(1,2,3)])
  show ?thesis
    by (subst training_loop.simps) (simp add: assms(4,5) g d Let_def)
qed

lemma training_loop_step:
  assumes "wf_vec x" and "wf_vec y" and "size_vec x = size_vec y"
    and "every cfg \<noteq> 0" and "0 \<le> i" and "i \<le> iterations cfg"
  shows "training_loop x y cfg i ws out =
     (let ws1 = descend x y cfg ws;
          out1 = (if i smod every cfg = 0 then out @ [(i, w ws1, b ws1)] else out)
      in if i = INT_MAX then \<lparr>fault = Some Signed_overflow, weights = ws1, printed = out1\<rparr>
         else training_loop x y cfg (i + 1) ws1 out1)"
proof -
  obtain g where g: "gradient x y ws = Inr g"
    and d: "descend x y cfg ws = \<lparr>w = w ws - alpha cfg * w g, b = b ws - alpha cfg * b g\<rparr>"
    by (rule descend_gradient [OF assms(1,2,3)])
  have "i \<noteq> INT_MIN" using assms(5) by (simp add: INT_MIN_def)
  then show ?thesis
    by (subst training_loop.simps) (simp add: assms(4,6) g d Let_def)
qed

text \<open>The loop entered at \<open>i\<close> with the weights \<open>ws\<close>, in closed form.\<close>

lemma training_loop_run:
  assumes "wf_vec x" and "wf_vec y" and "size_vec x = size_vec y" and "every cfg \<noteq> 0"
  shows "0 \<le> i \<Longrightarrow> i \<le> INT_MAX \<Longrightarrow>
     training_loop x y cfg i ws out =
       \<lparr>fault = (if i \<le> iterations cfg \<and> INT_MAX \<le> iterations cfg
                 then Some Signed_overflow else None),
        weights = (descend x y cfg ^^ nat (min (iterations cfg) INT_MAX + 1 - i)) ws,
        printed = out @ map (\<lambda>j. (j, w ((descend x y cfg ^^ nat (j - i + 1)) ws),
                                     b ((descend x y cfg ^^ nat (j - i + 1)) ws)))
                   (filter (\<lambda>j. j smod every cfg = 0) [i..min (iterations cfg) INT_MAX])\<rparr>"
proof (induction "nat (min (iterations cfg) INT_MAX + 1 - i)" arbitrary: i ws out)
  case 0
  then have gt: "iterations cfg < i" by linarith
  then have e: "[i..min (iterations cfg) INT_MAX] = []" by simp
  have n: "nat (min (iterations cfg) INT_MAX + 1 - i) = 0" using 0 by simp
  show ?case unfolding training_loop_exit [OF gt] e n using gt by simp
next
  case (Suc k)
  let ?D = "descend x y cfg"
  let ?m = "min (iterations cfg) INT_MAX"
  let ?out1 = "if i smod every cfg = 0 then out @ [(i, w (?D ws), b (?D ws))] else out"
  from Suc(2) have le: "i \<le> iterations cfg" and im: "i \<le> ?m" by linarith+
  note step = training_loop_step [OF assms(1,2,3,4) Suc(3) le, of ws out, unfolded Let_def]
  have up: "[i..?m] = i # [i + 1..?m]" using im by (simp add: upto_rec1)
  have pw: "(?D ^^ nat (j - (i + 1) + 1)) (?D ws) = (?D ^^ nat (j - i + 1)) ws" if "i + 1 \<le> j" for j
  proof -
    have "nat (j - i + 1) = Suc (nat (j - (i + 1) + 1))" using that by linarith
    then show ?thesis by (simp add: funpow_swap1)
  qed
  show ?case
  proof (cases "i = INT_MAX")
    case True
    then have m: "?m = i" using le by simp
    have e: "[i..i] = [i]" by (simp add: upto_rec1)
    show ?thesis unfolding step m e using True le by simp
  next
    case False
    with Suc(4) have lt: "i + 1 \<le> INT_MAX" by simp
    have nn: "0 \<le> i + 1" using Suc(3) by simp
    have k: "k = nat (?m + 1 - (i + 1))" using Suc(2) by linarith
    note ih = Suc(1) [OF k nn lt, of "?D ws" ?out1]
    have st: "training_loop x y cfg i ws out = training_loop x y cfg (i + 1) (?D ws) ?out1"
      unfolding step using False by simp
    have mp: "map (\<lambda>j. (j, w ((?D ^^ nat (j - (i + 1) + 1)) (?D ws)),
                           b ((?D ^^ nat (j - (i + 1) + 1)) (?D ws))))
                (filter (\<lambda>j. j smod every cfg = 0) [i + 1..?m])
            = map (\<lambda>j. (j, w ((?D ^^ nat (j - i + 1)) ws), b ((?D ^^ nat (j - i + 1)) ws)))
                (filter (\<lambda>j. j smod every cfg = 0) [i + 1..?m])"
    proof (rule map_cong [OF refl])
      fix j
      assume "j \<in> set (filter (\<lambda>j. j smod every cfg = 0) [i + 1..?m])"
      then have "i + 1 \<le> j" by simp
      then show "(j, w ((?D ^^ nat (j - (i + 1) + 1)) (?D ws)),
                     b ((?D ^^ nat (j - (i + 1) + 1)) (?D ws)))
               = (j, w ((?D ^^ nat (j - i + 1)) ws), b ((?D ^^ nat (j - i + 1)) ws))"
        by (simp only: pw)
    qed
    have nt: "nat (?m + 1 - i) = Suc (nat (?m + 1 - (i + 1)))" using im by linarith
    have fl: "(if i + 1 \<le> iterations cfg \<and> INT_MAX \<le> iterations cfg
               then Some Signed_overflow else None)
            = (if i \<le> iterations cfg \<and> INT_MAX \<le> iterations cfg
               then Some Signed_overflow else None)"
      using le lt by auto
    show ?thesis
      unfolding st ih mp up nt fl by (simp add: funpow_swap1)
  qed
qed

section \<open>Facts about reading the pairs\<close>

lemma wf_new_intvec: "wf_vec new_intvec" and contents_new_intvec: "contents new_intvec = []"
  and size_new_intvec: "size_vec new_intvec = 0"
  by (simp_all add: wf_vec_def contents_def new_intvec_def INIT_SIZE_def)

lemma vec_append_wf:
  assumes "wf_vec vec" and "in_int_range z"
  obtains vec' where "vec_append vec z = Inr vec'" and "wf_vec vec'"
    and "contents vec' = contents vec @ [z]" and "size_vec vec' = size_vec vec + 1"
proof -
  define n where "n = size_vec vec"
  define cells where
    "cells = (if capacity vec \<le> n then realloc (data vec) (capacity vec * 2) else data vec)"
  define cap where "cap = (if capacity vec \<le> n then capacity vec * 2 else capacity vec)"
  define vec' where "vec' = \<lparr>data = cells[n := Some z], size_vec = n + 1, capacity = cap\<rparr>"
  from assms(1) have c: "0 < capacity vec" "capacity vec = length (data vec)" "n \<le> capacity vec"
    and all: "list_all (\<lambda>c. case c of None \<Rightarrow> False | Some z \<Rightarrow> in_int_range z) (take n (data vec))"
    unfolding wf_vec_def n_def by blast+
  have len: "length cells = cap" using c(2,3) by (simp add: cells_def cap_def realloc_def)
  have lt: "n < cap" using c(1,3) by (auto simp: cap_def)
  have pre: "take n cells = take n (data vec)" using c(2,3) by (simp add: cells_def realloc_def)
  have tk: "take (n + 1) (cells[n := Some z]) = take n (data vec) @ [Some z]"
  proof -
    have "n < length (cells[n := Some z])" using lt len by simp
    then have "take (Suc n) (cells[n := Some z])
        = take n (cells[n := Some z]) @ [cells[n := Some z] ! n]"
      by (rule take_Suc_conv_app_nth)
    also have "take n (cells[n := Some z]) = take n cells" by simp
    also have "cells[n := Some z] ! n = Some z" using lt len by simp
    finally show ?thesis using pre by simp
  qed
  have eq: "vec_append vec z = Inr vec'"
    unfolding vec_append_def Let_def vec'_def using lt len
    by (cases "capacity vec \<le> size_vec vec") (simp_all add: cells_def cap_def n_def)
  have "0 < cap" using lt by simp
  then have wf: "wf_vec vec'"
    unfolding wf_vec_def vec'_def using lt len all assms(2) by (simp add: tk [simplified])
  have ct: "contents vec' = contents vec @ [z]"
    unfolding contents_def vec'_def using tk by (simp add: n_def)
  have sz: "size_vec vec' = size_vec vec + 1" by (simp add: vec'_def n_def)
  show ?thesis by (rule that [OF eq wf ct sz])
qed

lemma fscanf_dd_range:
  "fscanf_dd s = Inr (Some (a, c, s')) \<Longrightarrow> in_int_range a \<and> in_int_range c"
  by (auto simp: fscanf_dd_def split: option.splits if_splits prod.splits)

lemma fscanf_dd_fault: "fscanf_dd s = Inl e \<Longrightarrow> e = Conversion_out_of_range"
  by (auto simp: fscanf_dd_def split: option.splits if_splits prod.splits)

lemma read_pairs_spec:
  assumes "wf_vec x0" and "wf_vec y0"
  shows "read_pairs s x0 y0 = Inl Conversion_out_of_range \<or>
         (\<exists>x y. read_pairs s x0 y0 = Inr (x, y) \<and> wf_vec x \<and> wf_vec y \<and>
                 contents x = contents x0 @ map fst (scanned_pairs s) \<and>
                 contents y = contents y0 @ map snd (scanned_pairs s))"
  using assms
proof (induction s x0 y0 rule: read_pairs.induct)
  case (1 s x0 y0)
  show ?case
  proof (cases "fscanf_dd s")
    case (Inl e)
    then show ?thesis
      using fscanf_dd_fault [OF Inl] by (subst read_pairs.simps) simp
  next
    case (Inr r)
    show ?thesis
    proof (cases r)
      case None
      have "read_pairs s x0 y0 = Inr (x0, y0)"
        by (subst read_pairs.simps) (simp add: Inr None)
      moreover have "scanned_pairs s = []"
        by (subst scanned_pairs.simps) (simp add: Inr None)
      ultimately show ?thesis using "1.prems" by simp
    next
      case (Some p)
      obtain a c s' where p: "p = (a, c, s')" by (cases p)
      have f: "fscanf_dd s = Inr (Some (a, c, s'))" using Inr Some p by simp
      note rg = fscanf_dd_range [OF f]
      obtain x1 where x1: "vec_append x0 a = Inr x1" "wf_vec x1" "contents x1 = contents x0 @ [a]"
        using vec_append_wf [OF "1.prems"(1), of a] rg by blast
      obtain y1 where y1: "vec_append y0 c = Inr y1" "wf_vec y1" "contents y1 = contents y0 @ [c]"
        using vec_append_wf [OF "1.prems"(2), of c] rg by blast
      have rp: "read_pairs s x0 y0 = read_pairs s' x1 y1"
        by (subst read_pairs.simps) (simp add: f x1 y1)
      have sp: "scanned_pairs s = (a, c) # scanned_pairs s'"
        by (subst scanned_pairs.simps) (simp add: f)
      from "1.IH" [OF Inr Some _ _ x1(1) y1(1), of "(c, s')"] p x1(2) y1(2)
      have "read_pairs s' x1 y1 = Inl Conversion_out_of_range \<or>
         (\<exists>x y. read_pairs s' x1 y1 = Inr (x, y) \<and> wf_vec x \<and> wf_vec y \<and>
                 contents x = contents x1 @ map fst (scanned_pairs s') \<and>
                 contents y = contents y1 @ map snd (scanned_pairs s'))"
        by blast
      then show ?thesis unfolding rp sp x1(3) y1(3) by simp
    qed
  qed
qed

section \<open>The gradient in closed form\<close>

text \<open>
  Claim C2. For series \<open>x\<close>, \<open>y\<close> of the same length \<open>n > 0\<close> and weights \<open>(w, b)\<close>,
  \<open>gradient\<close> returns \<open>dw\<close>, the sum over \<open>i < n\<close> of \<open>(w * x[i] + b - y[i]) * x[i]\<close> divided
  by \<open>n\<close>, and \<open>db\<close>, the sum of \<open>w * x[i] + b - y[i]\<close> divided by \<open>n\<close>; there is no factor 2.
  The sums are those of the doubles, accumulated from \<open>0\<close> in index order.
\<close>

theorem gradient_is_mean_of_residual_sums:
  assumes "wf_vec x" and "wf_vec y" and "size_vec x = size_vec y" and "0 < size_vec x"
  shows "gradient x y ws =
     Inr \<lparr>w = dsum (map (\<lambda>i. (w ws * double_of_int (contents x ! i) + b ws
                                - double_of_int (contents y ! i)) * double_of_int (contents x ! i))
                     [0..<size_vec x]) / double_of_size (size_vec x),
          b = dsum (map (\<lambda>i. w ws * double_of_int (contents x ! i) + b ws
                                - double_of_int (contents y ! i))
                     [0..<size_vec x]) / double_of_size (size_vec x)\<rparr>"
proof -
  have len: "length (contents x) = length (contents y)" "length (contents x) = size_vec x"
    using assms(1,2,3) by (simp_all add: wf_vec_length)
  have dw: "dw_terms ws (contents x) (contents y) =
      map (\<lambda>i. (w ws * double_of_int (contents x ! i) + b ws
                   - double_of_int (contents y ! i)) * double_of_int (contents x ! i))
        [0..<size_vec x]"
    unfolding dw_terms_def residual_def zip_as_indices [OF len(1)] len(2) ..
  have db: "db_terms ws (contents x) (contents y) =
      map (\<lambda>i. w ws * double_of_int (contents x ! i) + b ws - double_of_int (contents y ! i))
        [0..<size_vec x]"
    unfolding db_terms_def residual_def zip_as_indices [OF len(1)] len(2) ..
  show ?thesis
    unfolding gradient_closed [OF assms(1,2,3)] dw db ..
qed

theorem gradient_is_mean_of_residual_sums_witness:
  "wf_vec \<lparr>data = [Some 1, Some 2, Some 3], size_vec = 3, capacity = 3\<rparr> \<and>
   wf_vec \<lparr>data = [Some 2, Some 3, Some 4], size_vec = 3, capacity = 3\<rparr> \<and>
   gradient \<lparr>data = [Some 1, Some 2, Some 3], size_vec = 3, capacity = 3\<rparr>
            \<lparr>data = [Some 2, Some 3, Some 4], size_vec = 3, capacity = 3\<rparr>
            \<lparr>w = Finite 0, b = Finite 0\<rparr>
     = Inr \<lparr>w = Finite (- 7505999378950827 / 1125899906842624), b = Finite (- 3)\<rparr>"
proof -
  let ?x = "\<lparr>data = [Some 1, Some 2, Some 3], size_vec = 3, capacity = 3\<rparr>"
  let ?y = "\<lparr>data = [Some 2, Some 3, Some 4], size_vec = 3, capacity = 3\<rparr>"
  have wx: "wf_vec ?x" and wy: "wf_vec ?y" by (simp_all add: vec_eval)
  have up: "[0..<3] = [0, 1, 2]" by (simp add: upt_rec)
  have "gradient ?x ?y \<lparr>w = Finite 0, b = Finite 0\<rparr>
     = Inr \<lparr>w = Finite (- 7505999378950827 / 1125899906842624), b = Finite (- 3)\<rparr>"
    apply (subst gradient_is_mean_of_residual_sums [OF wx wy])
      apply simp
     apply simp
    apply (simp add: up dsum_def contents_def)
    apply (simp add: double_eval)
    done
  with wx wy show ?thesis by simp
qed

text \<open>
  Claim C5 says that weights \<open>(w, b)\<close> with \<open>y[i] = w * x[i] + b\<close> exactly at every index
  give the gradient \<open>(0, 0)\<close>. The doubles \<open>w = 2^53 + 2\<close> and \<open>b = -(3 * 2^53 + 4)\<close> and the
  sample \<open>(3, 2)\<close> satisfy \<open>w * 3 + b = 2\<close> exactly, but the program's product \<open>w * 3\<close>
  rounds to \<open>3 * 2^53 + 8\<close>, its prediction is \<open>4\<close> and the gradient is \<open>(6, 2)\<close>.
\<close>

theorem gradient_zero_on_exact_fit_counterexample:
  "round64 9007199254740994 = Finite 9007199254740994 \<and>
   round64 (- 27021597764222980) = Finite (- 27021597764222980) \<and>
   value_of (Finite 9007199254740994) * 3 + value_of (Finite (- 27021597764222980)) = 2 \<and>
   gradient \<lparr>data = [Some 3, None], size_vec = 1, capacity = 2\<rparr>
            \<lparr>data = [Some 2, None], size_vec = 1, capacity = 2\<rparr>
            \<lparr>w = Finite 9007199254740994, b = Finite (- 27021597764222980)\<rparr>
     = Inr \<lparr>w = Finite 6, b = Finite 2\<rparr>"
proof -
  let ?x = "\<lparr>data = [Some 3, None], size_vec = 1, capacity = 2\<rparr>"
  let ?y = "\<lparr>data = [Some 2, None], size_vec = 1, capacity = 2\<rparr>"
  have wf: "wf_vec ?x" "wf_vec ?y" by (simp_all add: vec_eval)
  have sz: "size_vec ?x = size_vec ?y" by simp
  have r: "round64 9007199254740994 = Finite 9007199254740994"
    "round64 (- 27021597764222980) = Finite (- 27021597764222980)"
    by (simp_all add: double_eval)
  have "gradient ?x ?y \<lparr>w = Finite 9007199254740994, b = Finite (- 27021597764222980)\<rparr>
     = Inr \<lparr>w = Finite 6, b = Finite 2\<rparr>"
    unfolding gradient_closed [OF wf sz]
    apply (simp add: dw_terms_def db_terms_def residual_def contents_def dsum_def)
    apply (simp add: double_eval)
    done
  with r show ?thesis by simp
qed

text \<open>
  Claim C5, amended. For non-empty series of the same length and weights \<open>(w, b)\<close> such that
  at every index the double that the program computes for \<open>w * x[i] + b\<close> compares equal to
  \<open>y[i]\<close>, \<open>gradient\<close> returns exactly \<open>(0, 0)\<close>.
\<close>

theorem gradient_zero_on_exact_fit:
  assumes "wf_vec x" and "wf_vec y" and "size_vec x = size_vec y" and "0 < size_vec x"
    and fit: "\<forall>i < size_vec x.
                deq (w ws * double_of_int (contents x ! i) + b ws) (double_of_int (contents y ! i))"
  shows "gradient x y ws = Inr \<lparr>w = Finite 0, b = Finite 0\<rparr>"
proof -
  let ?xs = "contents x" and ?ys = "contents y"
  have len: "length ?xs = size_vec x" "length ?ys = size_vec x"
    using assms(1,2,3) by (simp_all add: wf_vec_length)
  have res: "is_zero (residual ws (?xs ! i) (?ys ! i))" if "i < size_vec x" for i
  proof -
    have "in_int_range (?ys ! i)" using wf_vec_read(2) [OF assms(2)] that assms(3) by simp
    then have "double_of_int (?ys ! i) = Finite (of_int (?ys ! i))" by (rule double_of_int_exact)
    moreover from fit that
    have "deq (w ws * double_of_int (?xs ! i) + b ws) (double_of_int (?ys ! i))" by blast
    ultimately show ?thesis by (simp add: residual_def deq_minus_zero)
  qed
  have "\<forall>t \<in> set (db_terms ws ?xs ?ys). is_zero t"
    using res len by (auto simp: db_terms_def set_zip)
  then have db: "dsum (db_terms ws ?xs ?ys) = 0" by (rule dsum_zeros)
  have "is_zero (residual ws (?xs ! i) (?ys ! i) * double_of_int (?xs ! i))" if "i < size_vec x" for i
  proof -
    have "in_int_range (?xs ! i)" by (rule wf_vec_read(2) [OF assms(1) that])
    then have "double_of_int (?xs ! i) = Finite (of_int (?xs ! i))" by (rule double_of_int_exact)
    with res [OF that] show ?thesis by (simp add: zero_times_finite)
  qed
  then have "\<forall>t \<in> set (dw_terms ws ?xs ?ys). is_zero t"
    using len by (auto simp: dw_terms_def set_zip)
  then have dw: "dsum (dw_terms ws ?xs ?ys) = 0" by (rule dsum_zeros)
  show ?thesis
    unfolding gradient_closed [OF assms(1,2,3)] dw db zero_div_size [OF assms(4)]
    by (simp add: zero_double_def)
qed

theorem gradient_zero_on_exact_fit_witness:
  "wf_vec \<lparr>data = [Some 1, Some 2, Some 3], size_vec = 3, capacity = 3\<rparr> \<and>
   wf_vec \<lparr>data = [Some 3, Some 5, Some 7], size_vec = 3, capacity = 3\<rparr> \<and>
   deq (Finite 2 * double_of_int 1 + Finite 1) (double_of_int 3) \<and>
   deq (Finite 2 * double_of_int 2 + Finite 1) (double_of_int 5) \<and>
   deq (Finite 2 * double_of_int 3 + Finite 1) (double_of_int 7) \<and>
   gradient \<lparr>data = [Some 1, Some 2, Some 3], size_vec = 3, capacity = 3\<rparr>
            \<lparr>data = [Some 3, Some 5, Some 7], size_vec = 3, capacity = 3\<rparr>
            \<lparr>w = Finite 2, b = Finite 1\<rparr>
     = Inr \<lparr>w = Finite 0, b = Finite 0\<rparr>"
proof -
  let ?x = "\<lparr>data = [Some 1, Some 2, Some 3], size_vec = 3, capacity = 3\<rparr>"
  let ?y = "\<lparr>data = [Some 3, Some 5, Some 7], size_vec = 3, capacity = 3\<rparr>"
  have wx: "wf_vec ?x" and wy: "wf_vec ?y" by (simp_all add: vec_eval)
  have f1: "deq (Finite 2 * double_of_int 1 + Finite 1) (double_of_int 3)"
    and f2: "deq (Finite 2 * double_of_int 2 + Finite 1) (double_of_int 5)"
    and f3: "deq (Finite 2 * double_of_int 3 + Finite 1) (double_of_int 7)"
    by (simp_all add: double_eval)
  have fit: "\<forall>i < size_vec ?x.
      deq (w \<lparr>w = Finite 2, b = Finite 1\<rparr> * double_of_int (contents ?x ! i)
             + b \<lparr>w = Finite 2, b = Finite 1\<rparr>) (double_of_int (contents ?y ! i))"
    using f1 f2 f3 by (simp add: All_less_Suc numeral_3_eq_3 contents_def)
  have "gradient ?x ?y \<lparr>w = Finite 2, b = Finite 1\<rparr> = Inr \<lparr>w = Finite 0, b = Finite 0\<rparr>"
    by (rule gradient_zero_on_exact_fit [OF wx wy _ _ fit]) simp_all
  with wx wy f1 f2 f3 show ?thesis by simp
qed

section \<open>Reading keeps the two series aligned\<close>

lemmas scan_eval =
  scan_d_def fscanf_dd_def scan_s_def fscanf_ss_def isspace_def isdigit_def decimal_def Let_def
  in_int_range_def INT_MIN_def INT_MAX_def

text \<open>
  Claim C7. When the reading loop is entered with two vectors of the same size and completes,
  also when it stops at a malformed record, \<open>x\<close> and \<open>y\<close> have the same length and
  \<open>x[i]\<close>, \<open>y[i]\<close> are the two numbers of one record of the stream: the pairs
  \<open>(x[i], y[i])\<close> are the pairs held before followed by the records read, in order. This
  holds again after each record: the first record read leaves two vectors of the same size,
  extended by that record, from which the loop continues.
\<close>

theorem read_pairs_keeps_series_aligned:
  assumes "wf_vec x0" and "wf_vec y0" and "size_vec x0 = size_vec y0"
    and "read_pairs s x0 y0 = Inr (x, y)"
  shows "size_vec x = size_vec y \<and> length (contents x) = length (contents y) \<and>
         zip (contents x) (contents y) = zip (contents x0) (contents y0) @ scanned_pairs s \<and>
         (\<forall>a c s'. fscanf_dd s = Inr (Some (a, c, s')) \<longrightarrow>
            (\<exists>x1 y1. vec_append x0 a = Inr x1 \<and> vec_append y0 c = Inr y1 \<and>
                     size_vec x1 = size_vec y1 \<and>
                     zip (contents x1) (contents y1) = zip (contents x0) (contents y0) @ [(a, c)] \<and>
                     read_pairs s' x1 y1 = Inr (x, y)))"
proof -
  have len0: "length (contents x0) = length (contents y0)"
    using assms(1,2,3) by (simp add: wf_vec_length)
  from read_pairs_spec [OF assms(1,2), of s] assms(4)
  have wf: "wf_vec x" "wf_vec y"
    and cx: "contents x = contents x0 @ map fst (scanned_pairs s)"
    and cy: "contents y = contents y0 @ map snd (scanned_pairs s)"
    by auto
  have len: "length (contents x) = length (contents y)" using len0 by (simp add: cx cy)
  then have sz: "size_vec x = size_vec y" using wf by (simp add: wf_vec_length)
  have zp: "zip (contents x) (contents y) = zip (contents x0) (contents y0) @ scanned_pairs s"
    unfolding cx cy using len0 by (simp add: zip_map_fst_snd)
  have step: "\<exists>x1 y1. vec_append x0 a = Inr x1 \<and> vec_append y0 c = Inr y1 \<and>
                     size_vec x1 = size_vec y1 \<and>
                     zip (contents x1) (contents y1) = zip (contents x0) (contents y0) @ [(a, c)] \<and>
                     read_pairs s' x1 y1 = Inr (x, y)"
    if f: "fscanf_dd s = Inr (Some (a, c, s'))" for a c s'
  proof -
    note rg = fscanf_dd_range [OF f]
    obtain x1 where x1: "vec_append x0 a = Inr x1" "contents x1 = contents x0 @ [a]"
      "size_vec x1 = size_vec x0 + 1"
      using vec_append_wf [OF assms(1), of a] rg by blast
    obtain y1 where y1: "vec_append y0 c = Inr y1" "contents y1 = contents y0 @ [c]"
      "size_vec y1 = size_vec y0 + 1"
      using vec_append_wf [OF assms(2), of c] rg by blast
    have "read_pairs s x0 y0 = read_pairs s' x1 y1"
      by (subst read_pairs.simps) (simp add: f x1(1) y1(1))
    with assms(3,4) x1 y1 len0 show ?thesis by simp
  qed
  from sz len zp step show ?thesis by blast
qed

theorem read_pairs_keeps_series_aligned_witness:
  "wf_vec new_intvec \<and> size_vec new_intvec = size_vec new_intvec \<and>
   read_pairs (''1 2'' @ [CHR 0x0A] @ ''3 4'' @ [CHR 0x0A] @ ''5 x'') new_intvec new_intvec
     = Inr (new_intvec\<lparr>data := (data new_intvec)[0 := Some 1, 1 := Some 3], size_vec := 2\<rparr>,
            new_intvec\<lparr>data := (data new_intvec)[0 := Some 2, 1 := Some 4], size_vec := 2\<rparr>) \<and>
   zip (contents (new_intvec\<lparr>data := (data new_intvec)[0 := Some 1, 1 := Some 3], size_vec := 2\<rparr>))
       (contents (new_intvec\<lparr>data := (data new_intvec)[0 := Some 2, 1 := Some 4], size_vec := 2\<rparr>))
     = [(1, 2), (3, 4)]"
proof -
  let ?s = "''1 2'' @ [CHR 0x0A] @ ''3 4'' @ [CHR 0x0A] @ ''5 x''"
  let ?x = "new_intvec\<lparr>data := (data new_intvec)[0 := Some 1, 1 := Some 3], size_vec := 2\<rparr>"
  let ?y = "new_intvec\<lparr>data := (data new_intvec)[0 := Some 2, 1 := Some 4], size_vec := 2\<rparr>"
  have rd: "read_pairs ?s new_intvec new_intvec = Inr (?x, ?y)"
    by (simp add: read_pairs.simps scan_eval vec_append_def new_intvec_def INIT_SIZE_def)
  have sp: "scanned_pairs ?s = [(1, 2), (3, 4)]"
    by (simp add: scanned_pairs.simps scan_eval)
  from read_pairs_keeps_series_aligned [OF wf_new_intvec wf_new_intvec refl rd]
  have "zip (contents ?x) (contents ?y) = [(1, 2), (3, 4)]"
    unfolding sp contents_new_intvec by simp
  with rd wf_new_intvec show ?thesis by simp
qed

section \<open>Facts about the settings\<close>

lemma read_settings_apply:
  "read_settings atof s st = apply_options atof (scanned_settings s) st"
proof (induction atof s st rule: read_settings.induct)
  case (1 atof s st)
  show ?case
  proof (cases "fscanf_ss s")
    case None
    then show ?thesis
      by (subst read_settings.simps, subst scanned_settings.simps) simp
  next
    case (Some p)
    obtain key val s' where p: "p = (key, val, s')" by (cases p)
    show ?thesis
    proof (cases "set_option atof key val st")
      case (Inl e)
      with Some p show ?thesis
        by (subst read_settings.simps, subst scanned_settings.simps) simp
    next
      case (Inr st')
      from "1.IH" [OF Some _ _ Inr, of "(val, s')"] p
      have "read_settings atof s' st' = apply_options atof (scanned_settings s') st'" by simp
      with Some p Inr show ?thesis
        by (subst read_settings.simps, subst scanned_settings.simps) simp
    qed
  qed
qed

lemma apply_options_snoc:
  "apply_options atof (kvs @ [(key, val)]) st =
     (case apply_options atof kvs st of
        Inl e \<Rightarrow> Inl e
      | Inr st' \<Rightarrow> set_option atof key val st')"
  by (induction kvs arbitrary: st) (auto split: sum.splits)

lemma last_value_snoc:
  "last_value k (kvs @ [(key, val)]) = (if k = key then Some val else last_value k kvs)"
  by (simp add: last_value_def)

lemma scan_s_length: "scan_s n s = Some (tok, s') \<Longrightarrow> length tok \<le> n"
  by (auto simp: scan_s_def Let_def split: if_splits)

lemma scanned_settings_lengths:
  "(key, val) \<in> set (scanned_settings s) \<Longrightarrow> length key \<le> 10 \<and> length val \<le> 100"
proof (induction s rule: scanned_settings.induct)
  case (1 s)
  show ?case
  proof (cases "fscanf_ss s")
    case None
    with "1.prems" show ?thesis by (subst (asm) scanned_settings.simps) simp
  next
    case (Some p)
    obtain k v s' where p: "p = (k, v, s')" by (cases p)
    from Some p obtain s1 where "scan_s 10 s = Some (k, s1)" "scan_s 100 s1 = Some (v, s')"
      by (auto simp: fscanf_ss_def split: option.splits prod.splits)
    then have kv: "length k \<le> 10" "length v \<le> 100" by (auto dest: scan_s_length)
    from "1.prems" Some p have "(key, val) = (k, v) \<or> (key, val) \<in> set (scanned_settings s')"
      by (subst (asm) scanned_settings.simps) simp
    then show ?thesis
    proof
      assume "(key, val) = (k, v)"
      with kv show ?thesis by simp
    next
      assume "(key, val) \<in> set (scanned_settings s')"
      with "1.IH" [OF Some] p show ?thesis by auto
    qed
  qed
qed

lemma apply_options_overlay:
  assumes "\<forall>kv \<in> set kvs. length (snd kv) \<le> 100"
  shows "apply_options atof kvs (default_settings, []) =
     (if \<exists>kv \<in> set kvs. unconvertible atof kv then Inl Conversion_out_of_range
      else Inr (overlay_defaults atof kvs,
                map Unknown_key (filter (\<lambda>k. k \<notin> set recognized) (map fst kvs))))"
  using assms
proof (induction kvs rule: rev_induct)
  case Nil
  show ?case by (simp add: overlay_defaults_def default_settings_def last_value_def)
next
  case (snoc kv kvs)
  obtain key val where kv: "kv = (key, val)" by (cases kv)
  from snoc.prems have len: "length val \<le> 100" and rest: "\<forall>kv \<in> set kvs. length (snd kv) \<le> 100"
    by (simp_all add: kv)
  note ih = snoc.IH [OF rest]
  show ?case
  proof (cases "\<exists>kv \<in> set kvs. unconvertible atof kv")
    case True
    then show ?thesis unfolding kv apply_options_snoc ih by auto
  next
    case False
    let ?cfg = "overlay_defaults atof kvs"
    let ?errs = "map Unknown_key (filter (\<lambda>k. k \<notin> set recognized) (map fst kvs))"
    have run: "apply_options atof (kvs @ [(key, val)]) (default_settings, []) = set_option atof key val (?cfg, ?errs)"
      unfolding apply_options_snoc ih using False by simp
    have bad: "(\<exists>kv \<in> set (kvs @ [(key, val)]). unconvertible atof kv) \<longleftrightarrow> unconvertible atof (key, val)"
      using False by auto
    consider (k_w) "key = ''w''" | (k_b) "key = ''b''" | (k_alpha) "key = ''alpha''"
      | (k_iterations) "key = ''iterations''" | (k_every) "key = ''log-every''"
      | (k_output) "key = ''output''" | (k_unknown) "key \<notin> set recognized"
      by (auto simp: recognized_def)
    then show ?thesis
    proof cases
      case k_w
      then show ?thesis unfolding kv run bad
        by (simp add: set_option_def unconvertible_def overlay_defaults_def last_value_snoc recognized_def)
    next
      case k_b
      then show ?thesis unfolding kv run bad
        by (simp add: set_option_def unconvertible_def overlay_defaults_def last_value_snoc recognized_def)
    next
      case k_alpha
      then show ?thesis unfolding kv run bad
        by (simp add: set_option_def unconvertible_def overlay_defaults_def last_value_snoc recognized_def)
    next
      case k_iterations
      then show ?thesis unfolding kv run bad
        by (cases "double_to_int (atof val)")
           (simp_all add: set_option_def unconvertible_def overlay_defaults_def last_value_snoc recognized_def)
    next
      case k_every
      then show ?thesis unfolding kv run bad
        by (cases "double_to_int (atof val)")
           (simp_all add: set_option_def unconvertible_def overlay_defaults_def last_value_snoc recognized_def)
    next
      case k_output
      then show ?thesis unfolding kv run bad using len
        by (simp add: set_option_def unconvertible_def overlay_defaults_def last_value_snoc recognized_def)
    next
      case k_unknown
      then have ne: "key \<noteq> ''w''" "key \<noteq> ''b''" "key \<noteq> ''alpha''" "key \<noteq> ''iterations''"
        "key \<noteq> ''log-every''" "key \<noteq> ''output''"
        by (auto simp: recognized_def)
      have ov: "overlay_defaults atof (kvs @ [(key, val)]) = overlay_defaults atof kvs"
        using ne by (simp add: overlay_defaults_def last_value_snoc)
      show ?thesis unfolding kv run bad ov
        using ne k_unknown by (simp add: set_option_def unconvertible_def)
    qed
  qed
qed

section \<open>The settings read\<close>

text \<open>
  Claim C8. For every settings stream the resolved settings are the documented defaults
  (\<open>w = 0\<close>, \<open>b = 0\<close>, \<open>alpha = 0.00001\<close>, \<open>iterations = 100000\<close>, \<open>log-every = 100\<close>, no output
  name, which means standard output) overlaid with the last value given for each recognised
  key; a record with another key adds one warning to the error stream, changes no setting and
  is not fatal. The records are the keys and values as \<^verbatim>\<open>fscanf\<close> delivers them. The loop
  stops otherwise only where a value of \<open>iterations\<close> or \<open>log-every\<close> has no conversion to
  \<^verbatim>\<open>int\<close>, which C leaves undefined.
\<close>

theorem settings_are_defaults_overlaid:
  "read_settings atof s (default_settings, []) =
     (if \<exists>kv \<in> set (scanned_settings s). unconvertible atof kv then Inl Conversion_out_of_range
      else Inr (overlay_defaults atof (scanned_settings s),
                map Unknown_key (filter (\<lambda>k. k \<notin> set recognized) (map fst (scanned_settings s)))))"
proof -
  have "\<forall>kv \<in> set (scanned_settings s). length (snd kv) \<le> 100"
    using scanned_settings_lengths [of _ _ s] by auto
  then show ?thesis
    unfolding read_settings_apply by (rule apply_options_overlay)
qed

theorem settings_are_defaults_overlaid_witness:
  "read_settings (\<lambda>v. if v = ''2'' then Finite 2 else if v = ''3'' then Finite 3
                       else if v = ''7'' then Finite 7 else Finite 0)
     (''w 2'' @ [CHR 0x0A] @ ''foo 1'' @ [CHR 0x0A] @ ''iterations 7'' @ [CHR 0x0A] @ ''w 3''
        @ [CHR 0x0A] @ ''output o.txt'' @ [CHR 0x0A])
     (default_settings, [])
   = Inr (\<lparr>init_w = Finite 3, init_b = Finite 0, alpha = round64 (1 / 100000), iterations = 7,
           every = 100, output_name = ''o.txt''\<rparr>, [Unknown_key ''foo''])"
proof -
  let ?atof = "\<lambda>v. if v = ''2'' then Finite 2 else if v = ''3'' then Finite 3
                       else if v = ''7'' then Finite 7 else Finite 0"
  let ?s = "''w 2'' @ [CHR 0x0A] @ ''foo 1'' @ [CHR 0x0A] @ ''iterations 7'' @ [CHR 0x0A] @ ''w 3''
        @ [CHR 0x0A] @ ''output o.txt'' @ [CHR 0x0A]"
  have sc: "scanned_settings ?s =
      [(''w'', ''2''), (''foo'', ''1''), (''iterations'', ''7''), (''w'', ''3''), (''output'', ''o.txt'')]"
    by (simp add: scanned_settings.simps scan_eval)
  show ?thesis
    unfolding settings_are_defaults_overlaid [of ?atof ?s] sc
    by (simp add: unconvertible_def overlay_defaults_def last_value_def recognized_def
                  in_int_range_def INT_MIN_def INT_MAX_def)
qed

section \<open>Facts about the program\<close>

lemma read_pairs_new:
  assumes "read_pairs p new_intvec new_intvec = Inr (x, y)"
  shows "wf_vec x" and "wf_vec y" and "size_vec x = size_vec y"
    and "contents x = map fst (scanned_pairs p)" and "contents y = map snd (scanned_pairs p)"
proof -
  from read_pairs_spec [OF wf_new_intvec wf_new_intvec, of p] assms
  show wf: "wf_vec x" "wf_vec y"
    and c: "contents x = map fst (scanned_pairs p)" "contents y = map snd (scanned_pairs p)"
    by (auto simp: contents_new_intvec)
  from c have "length (contents x) = length (contents y)" by simp
  with wf show "size_vec x = size_vec y" by (simp add: wf_vec_length)
qed

text \<open>A run that reaches the training loop.\<close>

lemma main_trains:
  assumes "argc env = 2 \<or> argc env = 3"
    and "pairs_file env = Some p"
    and "read_pairs p new_intvec new_intvec = Inr (x, y)"
    and "argc env = 3 \<longrightarrow> settings_file env = Some t"
    and "(if argc env = 3 then read_settings atof t (default_settings, [])
          else Inr (default_settings, [])) = Inr (cfg, errs)"
    and "output_name cfg = [] \<or> writable env (output_name cfg)"
  shows "main atof env =
     (let t = training_loop x y cfg 0 \<lparr>w = init_w cfg, b = init_b cfg\<rparr> []
      in \<lparr>status = (case fault t of
                       Some e \<Rightarrow> Undefined e
                     | None \<Rightarrow> if output_name cfg = [] then Undefined Fclose_null else Exit 0),
          stdout = (if output_name cfg = [] then printed t else []),
          file_out = (if output_name cfg = [] then [] else printed t),
          stderr = errs\<rparr>)"
proof (cases "argc env = 3")
  case True
  with assms(4) have t: "settings_file env = Some t" by simp
  from assms(5) True have rs: "read_settings atof t (default_settings, []) = Inr (cfg, errs)" by simp
  show ?thesis
    unfolding main_def using True assms(2,3,6) by (auto simp: t rs)
next
  case False
  with assms(1) have a: "argc env = 2" by simp
  from assms(5) False have c: "cfg = default_settings" "errs = []" by simp_all
  show ?thesis
    unfolding main_def using a assms(2,3,6) by (auto simp: c)
qed

lemma gradient_empty:
  assumes "wf_vec x" and "wf_vec y" and "size_vec x = size_vec y" and "size_vec x = 0"
  shows "gradient x y ws = Inr \<lparr>w = NaN, b = NaN\<rparr>"
proof -
  have "contents x = []" using assms(1,4) wf_vec_length [of x] by simp
  then show ?thesis
    unfolding gradient_closed [OF assms(1,2,3)] assms(4)
    by (simp add: dw_terms_def db_terms_def dsum_def double_of_size_def divide_double_def
                  zero_double_def ddiv_def is_zero_def is_inf_def)
qed

lemma descend_empty:
  assumes "wf_vec x" and "wf_vec y" and "size_vec x = size_vec y" and "size_vec x = 0"
  shows "descend x y cfg ws = \<lparr>w = NaN, b = NaN\<rparr>"
  unfolding descend_def gradient_empty [OF assms]
  by (simp add: minus_double_def times_double_def dmul_def dadd_def)

lemma descend_empty_funpow:
  assumes "wf_vec x" and "wf_vec y" and "size_vec x = size_vec y" and "size_vec x = 0"
  shows "(descend x y cfg ^^ Suc k) ws = \<lparr>w = NaN, b = NaN\<rparr>"
  by (simp add: descend_empty [OF assms])

section \<open>What the training loop prints\<close>

text \<open>A run on the samples \<open>(1, 1)\<close> and \<open>(2, 2)\<close> with \<open>alpha = 1\<close>, in which no operation rounds.\<close>

lemma descend_sample:
  "descend \<lparr>data = [Some 1, Some 2], size_vec = 2, capacity = 2\<rparr>
           \<lparr>data = [Some 1, Some 2], size_vec = 2, capacity = 2\<rparr>
           \<lparr>init_w = Finite 0, init_b = Finite 0, alpha = Finite 1, iterations = n, every = e,
            output_name = []\<rparr>
           \<lparr>w = Finite 0, b = Finite 0\<rparr>
     = \<lparr>w = Finite (5 / 2), b = Finite (3 / 2)\<rparr>"
proof -
  let ?x = "\<lparr>data = [Some 1, Some 2], size_vec = 2, capacity = 2\<rparr>"
  have wx: "wf_vec ?x" by (simp add: vec_eval)
  show ?thesis
    unfolding descend_def gradient_closed [OF wx wx refl]
    apply (simp add: dw_terms_def db_terms_def residual_def contents_def dsum_def)
    apply (simp add: double_eval)
    done
qed

lemma descend_contents:
  assumes "wf_vec x" and "wf_vec y" and "size_vec x = size_vec y"
  shows "descend x y cfg ws =
     \<lparr>w = w ws - alpha cfg * (dsum (dw_terms ws (contents x) (contents y))
                                 / double_of_size (size_vec x)),
      b = b ws - alpha cfg * (dsum (db_terms ws (contents x) (contents y))
                                 / double_of_size (size_vec x))\<rparr>"
  unfolding descend_def gradient_closed [OF assms] by simp

text \<open>
  Claim C1 says that the record printed at iteration \<open>i\<close> shows the weights as they were
  before the update of that iteration, so that the record of iteration \<open>0\<close> shows the
  configured \<open>(w, b)\<close>. With the pairs file \<open>1 1\<close>, \<open>2 2\<close> and the settings \<open>alpha 1\<close>,
  \<open>iterations 0\<close>, \<open>log-every 1\<close> (so \<open>w = b = 0\<close>; no operation rounds) the program prints
  the single record \<open>(0, 2.5, 1.5)\<close>, not \<open>(0, 0, 0)\<close>.
\<close>

theorem first_record_shows_initial_weights_counterexample:
  "stdout (main (\<lambda>v. if v = ''1'' then Finite 1 else Finite 0)
            \<lparr>argc = 3, pairs_file = Some (''1 1'' @ [CHR 0x0A] @ ''2 2'' @ [CHR 0x0A]),
             settings_file = Some (''alpha 1'' @ [CHR 0x0A] @ ''iterations 0'' @ [CHR 0x0A]
                                     @ ''log-every 1'' @ [CHR 0x0A]),
             writable = (\<lambda>name. True)\<rparr>)
     = [(0, Finite (5 / 2), Finite (3 / 2))]"
proof -
  let ?atof = "\<lambda>v. if v = ''1'' then Finite 1 else Finite 0"
  let ?p = "''1 1'' @ [CHR 0x0A] @ ''2 2'' @ [CHR 0x0A]"
  let ?t = "''alpha 1'' @ [CHR 0x0A] @ ''iterations 0'' @ [CHR 0x0A] @ ''log-every 1'' @ [CHR 0x0A]"
  let ?env = "\<lparr>argc = 3, pairs_file = Some ?p, settings_file = Some ?t,
               writable = (\<lambda>name. True)\<rparr>"
  define x where
    "x = new_intvec\<lparr>data := (data new_intvec)[0 := Some 1, 1 := Some 2], size_vec := 2\<rparr>"
  define cfg where "cfg = default_settings\<lparr>alpha := Finite 1, iterations := 0, every := 1\<rparr>"
  have rp: "read_pairs ?p new_intvec new_intvec = Inr (x, x)"
    by (simp add: x_def read_pairs.simps scan_eval vec_append_def new_intvec_def INIT_SIZE_def)
  have sp: "scanned_pairs ?p = [(1, 1), (2, 2)]"
    by (simp add: scanned_pairs.simps scan_eval)
  note v = read_pairs_new [OF rp, unfolded sp]
  have rs: "read_settings ?atof ?t (default_settings, []) = Inr (cfg, [])"
    by (simp add: cfg_def read_settings.simps scan_eval set_option_def)
  have a1: "argc ?env = 2 \<or> argc ?env = 3" and a2: "pairs_file ?env = Some ?p"
    and a4: "argc ?env = 3 \<longrightarrow> settings_file ?env = Some ?t"
    by simp_all
  have a5: "(if argc ?env = 3 then read_settings ?atof ?t (default_settings, [])
             else Inr (default_settings, [])) = Inr (cfg, [])"
    using rs by simp
  have c: "every cfg = 1" "iterations cfg = 0" "output_name cfg = []" "alpha cfg = Finite 1"
    "init_w cfg = Finite 0" "init_b cfg = Finite 0"
    by (simp_all add: cfg_def default_settings_def)
  have a6: "output_name cfg = [] \<or> writable ?env (output_name cfg)" by (simp add: c)
  have e: "every cfg \<noteq> 0" by (simp add: c)
  have z: "(0::int) \<le> 0" and zm: "0 \<le> INT_MAX" by (simp_all add: INT_MAX_def)
  have sz: "size_vec x = 2" by (simp add: x_def)
  have d: "descend x x cfg \<lparr>w = init_w cfg, b = init_b cfg\<rparr>
             = \<lparr>w = Finite (5 / 2), b = Finite (3 / 2)\<rparr>"
    unfolding descend_contents [OF v(1,2,3)] v(4,5) sz c
    apply (simp add: dw_terms_def db_terms_def residual_def dsum_def)
    apply (simp add: double_eval)
    done
  have up: "[0..0::int] = [0]" by (simp add: upto_rec1)
  have lp: "printed (training_loop x x cfg 0 \<lparr>w = init_w cfg, b = init_b cfg\<rparr> [])
              = [(0, Finite (5 / 2), Finite (3 / 2))]"
    unfolding training_loop_run [OF v(1,2,3) e z zm] training.simps c(1,2)
    by (simp add: INT_MAX_def up d)
  show ?thesis
    unfolding main_trains [OF a1 a2 rp a4 a5 a6] Let_def run.simps lp c(3) by simp
qed

text \<open>
  Claim C1, amended. For every run and every iteration \<open>i\<close> with \<open>i mod log_every = 0\<close>, the
  record printed at iteration \<open>i\<close> shows the weights after the update of that iteration,
  that is after \<open>i + 1\<close> updates of the configured \<open>(w, b)\<close>; the record of iteration \<open>0\<close>
  shows them after one update. These are all the records, in increasing order of \<open>i\<close>.
\<close>

theorem records_show_updated_weights:
  assumes "wf_vec x" and "wf_vec y" and "size_vec x = size_vec y"
    and "every cfg \<noteq> 0" and "iterations cfg \<le> INT_MAX"
  shows "printed (training_loop x y cfg 0 \<lparr>w = init_w cfg, b = init_b cfg\<rparr> []) =
           map (\<lambda>i. (i, w (weights_after x y cfg (nat (i + 1))),
                         b (weights_after x y cfg (nat (i + 1)))))
             (filter (\<lambda>i. i smod every cfg = 0) [0..iterations cfg])"
proof -
  have m: "min (iterations cfg) INT_MAX = iterations cfg" using assms(5) by simp
  have z: "(0::int) \<le> 0" and zm: "0 \<le> INT_MAX" by (simp_all add: INT_MAX_def)
  show ?thesis
    unfolding training_loop_run [OF assms(1,2,3,4) z zm] m
    by (simp add: weights_after_def)
qed

theorem records_show_updated_weights_witness:
  "wf_vec \<lparr>data = [Some 1, Some 2], size_vec = 2, capacity = 2\<rparr> \<and> (1::int) \<noteq> 0 \<and> 0 \<le> INT_MAX \<and>
   printed (training_loop \<lparr>data = [Some 1, Some 2], size_vec = 2, capacity = 2\<rparr>
                          \<lparr>data = [Some 1, Some 2], size_vec = 2, capacity = 2\<rparr>
              \<lparr>init_w = Finite 0, init_b = Finite 0, alpha = Finite 1, iterations = 0, every = 1,
               output_name = []\<rparr>
              0 \<lparr>w = Finite 0, b = Finite 0\<rparr> [])
     = [(0, Finite (5 / 2), Finite (3 / 2))]"
proof -
  let ?x = "\<lparr>data = [Some 1, Some 2], size_vec = 2, capacity = 2\<rparr>"
  let ?cfg = "\<lparr>init_w = Finite 0, init_b = Finite 0, alpha = Finite 1, iterations = 0, every = 1,
               output_name = []\<rparr>"
  have wx: "wf_vec ?x" by (simp add: vec_eval)
  have i: "iterations ?cfg \<le> INT_MAX" and e: "every ?cfg \<noteq> 0" by (simp_all add: INT_MAX_def)
  have wa: "weights_after ?x ?x ?cfg (Suc 0) = \<lparr>w = Finite (5 / 2), b = Finite (3 / 2)\<rparr>"
    by (simp add: weights_after_def descend_sample)
  from records_show_updated_weights [OF wx wx refl e i] wx
  show ?thesis by (simp add: upto_rec1 wa INT_MAX_def)
qed

text \<open>
  With \<open>log-every = 1\<close> and \<open>0 \<le> iterations < INT_MAX\<close> the loop ends without a fault and has
  printed one record for each \<open>i\<close> in \<open>0..iterations\<close>, in increasing order.
\<close>

lemma one_record_per_iteration:
  assumes "wf_vec x" and "wf_vec y" and "size_vec x = size_vec y"
    and "every cfg = 1" and "0 \<le> iterations cfg" and "iterations cfg < INT_MAX"
  shows "fault (training_loop x y cfg 0 ws []) = None"
    and "map fst (printed (training_loop x y cfg 0 ws [])) = [0..iterations cfg]"
    and "length (printed (training_loop x y cfg 0 ws [])) = nat (iterations cfg + 1)"
proof -
  have e: "every cfg \<noteq> 0" using assms(4) by simp
  have m: "min (iterations cfg) INT_MAX = iterations cfg" using assms(6) by simp
  have z: "(0::int) \<le> 0" and zm: "0 \<le> INT_MAX" by (simp_all add: INT_MAX_def)
  note run = training_loop_run [OF assms(1,2,3) e z zm, of ws "[]", unfolded m]
  have all: "filter (\<lambda>j. j smod every cfg = 0) [0..iterations cfg] = [0..iterations cfg]"
    by (simp add: assms(4) signed_modulo_int_def)
  show "fault (training_loop x y cfg 0 ws []) = None"
    unfolding run using assms(6) by simp
  show "map fst (printed (training_loop x y cfg 0 ws [])) = [0..iterations cfg]"
    unfolding run all by (simp add: comp_def)
  show "length (printed (training_loop x y cfg 0 ws [])) = nat (iterations cfg + 1)"
    unfolding run all using assms(5) by simp
qed

text \<open>
  Claim C4 says that \<open>iterations = N \<ge> 0\<close> and \<open>log-every = 1\<close> give exactly \<open>N + 1\<close> records.
  The program does so for \<open>N < INT_MAX\<close> (\<open>one_record_per_iteration\<close>). For \<open>N = INT_MAX\<close>,
  the settings \<open>iterations 2147483647\<close>, \<open>log-every 1\<close>, the test \<^verbatim>\<open>i <= iterations\<close> never
  fails and \<^verbatim>\<open>i++\<close> overflows after the record of \<open>INT_MAX\<close>.
\<close>

theorem iterations_int_max_overflows:
  "status (main (\<lambda>v. if v = ''2147483647'' then Finite 2147483647
                       else if v = ''1'' then Finite 1 else Finite 0)
            \<lparr>argc = 3, pairs_file = Some ''1 2'',
             settings_file = Some (''iterations 2147483647'' @ [CHR 0x0A] @ ''log-every 1''),
             writable = (\<lambda>name. True)\<rparr>)
     = Undefined Signed_overflow"
proof -
  let ?atof = "\<lambda>v. if v = ''2147483647'' then Finite 2147483647
                       else if v = ''1'' then Finite 1 else Finite 0"
  let ?t = "''iterations 2147483647'' @ [CHR 0x0A] @ ''log-every 1''"
  let ?env = "\<lparr>argc = 3, pairs_file = Some ''1 2'', settings_file = Some ?t,
               writable = (\<lambda>name. True)\<rparr>"
  define x where "x = new_intvec\<lparr>data := (data new_intvec)[0 := Some 1], size_vec := 1\<rparr>"
  define y where "y = new_intvec\<lparr>data := (data new_intvec)[0 := Some 2], size_vec := 1\<rparr>"
  define cfg where "cfg = default_settings\<lparr>iterations := 2147483647, every := 1\<rparr>"
  have rp: "read_pairs ''1 2'' new_intvec new_intvec = Inr (x, y)"
    by (simp add: x_def y_def read_pairs.simps scan_eval vec_append_def new_intvec_def INIT_SIZE_def)
  note v = read_pairs_new [OF rp]
  have rs: "read_settings ?atof ?t (default_settings, []) = Inr (cfg, [])"
    by (simp add: cfg_def read_settings.simps scan_eval set_option_def)
  have a1: "argc ?env = 2 \<or> argc ?env = 3" and a2: "pairs_file ?env = Some ''1 2''"
    and a4: "argc ?env = 3 \<longrightarrow> settings_file ?env = Some ?t"
    by simp_all
  have a5: "(if argc ?env = 3 then read_settings ?atof ?t (default_settings, [])
             else Inr (default_settings, [])) = Inr (cfg, [])"
    using rs by simp
  have c: "every cfg = 1" "iterations cfg = 2147483647" "output_name cfg = []"
    by (simp_all add: cfg_def default_settings_def)
  have a6: "output_name cfg = [] \<or> writable ?env (output_name cfg)" by (simp add: c)
  have e: "every cfg \<noteq> 0" by (simp add: c)
  have z: "(0::int) \<le> 0" and zm: "0 \<le> INT_MAX" by (simp_all add: INT_MAX_def)
  have lp: "fault (training_loop x y cfg 0 \<lparr>w = init_w cfg, b = init_b cfg\<rparr> [])
      = Some Signed_overflow"
    unfolding training_loop_run [OF v(1,2,3) e z zm] training.simps c(2)
    by (simp add: INT_MAX_def)
  show ?thesis
    unfolding main_trains [OF a1 a2 rp a4 a5 a6] Let_def run.simps lp by simp
qed

section \<open>Runs of the program\<close>

text \<open>
  Claim C9. The test \<^verbatim>\<open>i % every\<close> is defined only for a non-zero \<^verbatim>\<open>every\<close>. In every run
  that reaches the loop with settings that resolve \<open>log-every\<close> to \<open>0\<close>, the test is a
  modulo by zero the first time it is evaluated, which is in the very first iteration, after
  its update and before any record is printed; only a negative \<open>iterations\<close>, for which
  the loop has no iteration, avoids it. A settings file reaches it.
\<close>

theorem log_every_zero_is_modulo_by_zero:
  assumes "argc env = 3" and "pairs_file env = Some p"
    and "read_pairs p new_intvec new_intvec = Inr (x, y)"
    and "settings_file env = Some t"
    and "read_settings atof t (default_settings, []) = Inr (cfg, errs)"
    and "every cfg = 0"
    and "output_name cfg = [] \<or> writable env (output_name cfg)"
  shows "training_loop x y cfg 0 \<lparr>w = init_w cfg, b = init_b cfg\<rparr> [] =
           (if 0 \<le> iterations cfg
            then \<lparr>fault = Some Modulo_by_zero,
                  weights = descend x y cfg \<lparr>w = init_w cfg, b = init_b cfg\<rparr>, printed = []\<rparr>
            else \<lparr>fault = None, weights = \<lparr>w = init_w cfg, b = init_b cfg\<rparr>, printed = []\<rparr>) \<and>
         (0 \<le> iterations cfg \<longrightarrow> status (main atof env) = Undefined Modulo_by_zero) \<and>
         stdout (main atof env) = [] \<and> file_out (main atof env) = []"
proof -
  note v = read_pairs_new [OF assms(3)]
  let ?ws = "\<lparr>w = init_w cfg, b = init_b cfg\<rparr>"
  have lp: "training_loop x y cfg 0 ?ws [] =
           (if 0 \<le> iterations cfg
            then \<lparr>fault = Some Modulo_by_zero, weights = descend x y cfg ?ws, printed = []\<rparr>
            else \<lparr>fault = None, weights = ?ws, printed = []\<rparr>)"
  proof (cases "0 \<le> iterations cfg")
    case True
    then show ?thesis by (simp add: training_loop_modulo_by_zero [OF v(1,2,3) assms(6)])
  next
    case False
    then show ?thesis by (simp add: training_loop_exit)
  qed
  have m: "main atof env =
     (let t = training_loop x y cfg 0 ?ws []
      in \<lparr>status = (case fault t of
                       Some e \<Rightarrow> Undefined e
                     | None \<Rightarrow> if output_name cfg = [] then Undefined Fclose_null else Exit 0),
          stdout = (if output_name cfg = [] then printed t else []),
          file_out = (if output_name cfg = [] then [] else printed t),
          stderr = errs\<rparr>)"
    by (rule main_trains [OF _ assms(2,3) _ _ assms(7), of t atof errs])
       (simp_all add: assms(1,4,5))
  show ?thesis unfolding m lp by (simp add: Let_def)
qed

theorem log_every_zero_is_modulo_by_zero_witness:
  "read_pairs ''1 2'' new_intvec new_intvec
     = Inr (new_intvec\<lparr>data := (data new_intvec)[0 := Some 1], size_vec := 1\<rparr>,
            new_intvec\<lparr>data := (data new_intvec)[0 := Some 2], size_vec := 1\<rparr>) \<and>
   read_settings (\<lambda>v. Finite 0) ''log-every 0'' (default_settings, [])
     = Inr (default_settings\<lparr>every := 0\<rparr>, []) \<and>
   (0::int) \<le> 100000 \<and>
   status (main (\<lambda>v. Finite 0)
            \<lparr>argc = 3, pairs_file = Some ''1 2'', settings_file = Some ''log-every 0'',
             writable = (\<lambda>name. True)\<rparr>)
     = Undefined Modulo_by_zero"
proof -
  let ?env = "\<lparr>argc = 3, pairs_file = Some ''1 2'', settings_file = Some ''log-every 0'',
             writable = (\<lambda>name. True)\<rparr>"
  let ?cfg = "default_settings\<lparr>every := 0\<rparr>"
  have rp: "read_pairs ''1 2'' new_intvec new_intvec
     = Inr (new_intvec\<lparr>data := (data new_intvec)[0 := Some 1], size_vec := 1\<rparr>,
            new_intvec\<lparr>data := (data new_intvec)[0 := Some 2], size_vec := 1\<rparr>)"
    by (simp add: read_pairs.simps scan_eval vec_append_def new_intvec_def INIT_SIZE_def)
  have rs: "read_settings (\<lambda>v. Finite 0) ''log-every 0'' (default_settings, []) = Inr (?cfg, [])"
    by (simp add: read_settings.simps scan_eval set_option_def)
  have a1: "argc ?env = 3" and a2: "pairs_file ?env = Some ''1 2''"
    and a4: "settings_file ?env = Some ''log-every 0''"
    by simp_all
  have a6: "every ?cfg = 0" and a7: "output_name ?cfg = [] \<or> writable ?env (output_name ?cfg)"
    and it: "0 \<le> iterations ?cfg"
    by (simp_all add: default_settings_def)
  from log_every_zero_is_modulo_by_zero [OF a1 a2 rp a4 rs a6 a7] it
  have "status (main (\<lambda>v. Finite 0) ?env) = Undefined Modulo_by_zero" by blast
  with rp rs show ?thesis by simp
qed

text \<open>
  With negative \<open>iterations\<close> the loop body is never entered: no gradient, no record, the
  weights stay the configured ones. The run then ends with status 0 when an output file was
  opened; without one it reaches \<^verbatim>\<open>fclose(output_file)\<close> with a null pointer.
\<close>

lemma negative_iterations_skip_training:
  assumes "argc env = 2 \<or> argc env = 3"
    and "pairs_file env = Some p"
    and "read_pairs p new_intvec new_intvec = Inr (x, y)"
    and "argc env = 3 \<longrightarrow> settings_file env = Some t"
    and "(if argc env = 3 then read_settings atof t (default_settings, [])
          else Inr (default_settings, [])) = Inr (cfg, errs)"
    and "output_name cfg = [] \<or> writable env (output_name cfg)"
    and "iterations cfg < 0"
  shows "training_loop x y cfg 0 \<lparr>w = init_w cfg, b = init_b cfg\<rparr> [] =
           \<lparr>fault = None, weights = \<lparr>w = init_w cfg, b = init_b cfg\<rparr>, printed = []\<rparr>"
    and "stdout (main atof env) = []" and "file_out (main atof env) = []"
    and "status (main atof env) = (if output_name cfg = [] then Undefined Fclose_null else Exit 0)"
proof -
  show lp: "training_loop x y cfg 0 \<lparr>w = init_w cfg, b = init_b cfg\<rparr> [] =
           \<lparr>fault = None, weights = \<lparr>w = init_w cfg, b = init_b cfg\<rparr>, printed = []\<rparr>"
    by (rule training_loop_exit [OF assms(7)])
  note m = main_trains [OF assms(1-6), unfolded lp Let_def]
  show "stdout (main atof env) = []" and "file_out (main atof env) = []"
    and "status (main atof env) = (if output_name cfg = [] then Undefined Fclose_null else Exit 0)"
    unfolding m by simp_all
qed

text \<open>
  Claim C10 says that a run whose settings resolve \<open>iterations\<close> to a negative value skips
  the loop and still exits with status 0. With the settings file \<open>iterations -1\<close>, which
  names no output file, the loop is skipped and nothing is printed, but the run does not
  reach \<^verbatim>\<open>return 0\<close> in a defined way: \<^verbatim>\<open>fclose\<close> is called on the null \<^verbatim>\<open>output_file\<close>.
\<close>

theorem negative_iterations_close_null_stream:
  "status (main (\<lambda>v. if v = ''-1'' then Finite (- 1) else Finite 0)
            \<lparr>argc = 3, pairs_file = Some ''1 2'', settings_file = Some ''iterations -1'',
             writable = (\<lambda>name. True)\<rparr>)
     = Undefined Fclose_null \<and>
   stdout (main (\<lambda>v. if v = ''-1'' then Finite (- 1) else Finite 0)
            \<lparr>argc = 3, pairs_file = Some ''1 2'', settings_file = Some ''iterations -1'',
             writable = (\<lambda>name. True)\<rparr>)
     = []"
proof -
  let ?atof = "\<lambda>v. if v = ''-1'' then Finite (- 1) else Finite 0"
  let ?env = "\<lparr>argc = 3, pairs_file = Some ''1 2'', settings_file = Some ''iterations -1'',
             writable = (\<lambda>name. True)\<rparr>"
  have rp: "read_pairs ''1 2'' new_intvec new_intvec
     = Inr (new_intvec\<lparr>data := (data new_intvec)[0 := Some 1], size_vec := 1\<rparr>,
            new_intvec\<lparr>data := (data new_intvec)[0 := Some 2], size_vec := 1\<rparr>)"
    by (simp add: read_pairs.simps scan_eval vec_append_def new_intvec_def INIT_SIZE_def)
  have c: "\<lceil>- 1 :: rat\<rceil> = - 1" using ceiling_of_int [of "- 1", where ?'a = rat] by simp
  have rs: "read_settings ?atof ''iterations -1'' (default_settings, [])
     = Inr (default_settings\<lparr>iterations := - 1\<rparr>, [])"
    by (simp add: read_settings.simps scan_eval set_option_def c)
  let ?cfg = "default_settings\<lparr>iterations := - 1\<rparr>"
  have a1: "argc ?env = 2 \<or> argc ?env = 3" and a2: "pairs_file ?env = Some ''1 2''"
    and a4: "argc ?env = 3 \<longrightarrow> settings_file ?env = Some ''iterations -1''"
    by simp_all
  have a5: "(if argc ?env = 3 then read_settings ?atof ''iterations -1'' (default_settings, [])
             else Inr (default_settings, [])) = Inr (?cfg, [])"
    using rs by simp
  have a6: "output_name ?cfg = [] \<or> writable ?env (output_name ?cfg)"
    and a7: "iterations ?cfg < 0"
    by (simp_all add: default_settings_def)
  note n = negative_iterations_skip_training [OF a1 a2 rp a4 a5 a6 a7]
  have "status (main ?atof ?env) = Undefined Fclose_null"
    unfolding n(4) by (simp add: default_settings_def)
  moreover have "stdout (main ?atof ?env) = []"
    by (rule n(2))
  ultimately show ?thesis by simp
qed

text \<open>
  Claim C3 says that a run whose input stream yields no sample reports a fatal configuration
  error before the loop, exits with a non-zero status and prints no progress record. With an
  empty pairs file and the settings \<open>iterations 3\<close>, \<open>output o\<close> the program reports nothing,
  prints the record of iteration \<open>0\<close> with both weights NaN, and exits with status 0.
\<close>

theorem empty_input_is_fatal_counterexample:
  "status (main (\<lambda>v. if v = ''3'' then Finite 3 else Finite 0)
            \<lparr>argc = 3, pairs_file = Some [],
             settings_file = Some (''iterations 3'' @ [CHR 0x0A] @ ''output o''),
             writable = (\<lambda>name. True)\<rparr>) = Exit 0 \<and>
   stderr (main (\<lambda>v. if v = ''3'' then Finite 3 else Finite 0)
            \<lparr>argc = 3, pairs_file = Some [],
             settings_file = Some (''iterations 3'' @ [CHR 0x0A] @ ''output o''),
             writable = (\<lambda>name. True)\<rparr>) = [] \<and>
   file_out (main (\<lambda>v. if v = ''3'' then Finite 3 else Finite 0)
            \<lparr>argc = 3, pairs_file = Some [],
             settings_file = Some (''iterations 3'' @ [CHR 0x0A] @ ''output o''),
             writable = (\<lambda>name. True)\<rparr>) = [(0, NaN, NaN)]"
proof -
  let ?atof = "\<lambda>v. if v = ''3'' then Finite 3 else Finite 0"
  let ?t = "''iterations 3'' @ [CHR 0x0A] @ ''output o''"
  let ?env = "\<lparr>argc = 3, pairs_file = Some [], settings_file = Some ?t,
               writable = (\<lambda>name. True)\<rparr>"
  let ?cfg = "default_settings\<lparr>iterations := 3, output_name := ''o''\<rparr>"
  let ?ws = "\<lparr>w = init_w ?cfg, b = init_b ?cfg\<rparr>"
  have rp: "read_pairs [] new_intvec new_intvec = Inr (new_intvec, new_intvec)"
    by (simp add: read_pairs.simps scan_eval)
  have rs: "read_settings ?atof ?t (default_settings, []) = Inr (?cfg, [])"
    by (simp add: read_settings.simps scan_eval set_option_def)
  have a1: "argc ?env = 2 \<or> argc ?env = 3" and a2: "pairs_file ?env = Some []"
    and a4: "argc ?env = 3 \<longrightarrow> settings_file ?env = Some ?t"
    by simp_all
  have a5: "(if argc ?env = 3 then read_settings ?atof ?t (default_settings, [])
             else Inr (default_settings, [])) = Inr (?cfg, [])"
    using rs by simp
  have a6: "output_name ?cfg = [] \<or> writable ?env (output_name ?cfg)" by simp
  have e: "every ?cfg \<noteq> 0" by (simp add: default_settings_def)
  have z: "(0::int) \<le> 0" and zm: "0 \<le> INT_MAX" by (simp_all add: INT_MAX_def)
  have d: "descend new_intvec new_intvec ?cfg ?ws = \<lparr>w = NaN, b = NaN\<rparr>"
    by (rule descend_empty [OF wf_new_intvec wf_new_intvec refl size_new_intvec])
  have fl: "filter (\<lambda>j. j smod 100 = 0) [0..3] = [0::int]"
    by (simp add: upto_rec1 signed_modulo_int_def)
  have lp: "training_loop new_intvec new_intvec ?cfg 0 ?ws [] =
      \<lparr>fault = None, weights = (descend new_intvec new_intvec ?cfg ^^ 4) ?ws,
       printed = [(0, NaN, NaN)]\<rparr>"
    unfolding training_loop_run [OF wf_new_intvec wf_new_intvec refl e z zm]
    by (simp add: INT_MAX_def default_settings_def fl d [unfolded default_settings_def, simplified])
  show ?thesis
    unfolding main_trains [OF a1 a2 rp a4 a5 a6] lp by (simp add: Let_def)
qed

text \<open>
  Claim C3, amended. A run whose input stream yields no sample reports no configuration
  error: the error stream holds the warnings of the settings file only, the training loop is
  entered as for any other input, each gradient is \<open>0 / 0\<close>, and for every iteration \<open>i\<close> in
  \<open>0..iterations\<close> with \<open>i mod log_every = 0\<close> the record \<open>(i, NaN, NaN)\<close> is printed, to the
  output file when one is named and to standard output otherwise; with an output file (and
  \<open>iterations < INT_MAX\<close>) the run exits with status 0.
\<close>

theorem empty_input_is_trained_on:
  assumes "argc env = 2 \<or> argc env = 3"
    and "pairs_file env = Some p"
    and "read_pairs p new_intvec new_intvec = Inr (x, y)" and "size_vec x = 0"
    and "argc env = 3 \<longrightarrow> settings_file env = Some t"
    and "(if argc env = 3 then read_settings atof t (default_settings, [])
          else Inr (default_settings, [])) = Inr (cfg, errs)"
    and "output_name cfg = [] \<or> writable env (output_name cfg)"
    and "every cfg \<noteq> 0" and "iterations cfg \<le> INT_MAX"
  shows "stderr (main atof env) = errs \<and>
         stdout (main atof env) @ file_out (main atof env) =
           map (\<lambda>i. (i, NaN, NaN)) (filter (\<lambda>i. i smod every cfg = 0) [0..iterations cfg]) \<and>
         (output_name cfg = [] \<longrightarrow> file_out (main atof env) = []) \<and>
         (output_name cfg \<noteq> [] \<longrightarrow> stdout (main atof env) = []) \<and>
         (output_name cfg \<noteq> [] \<longrightarrow> iterations cfg < INT_MAX \<longrightarrow> status (main atof env) = Exit 0)"
proof -
  note v = read_pairs_new [OF assms(3)]
  let ?D = "descend x y cfg"
  let ?ws = "\<lparr>w = init_w cfg, b = init_b cfg\<rparr>"
  have m: "min (iterations cfg) INT_MAX = iterations cfg" using assms(9) by simp
  have z: "(0::int) \<le> 0" and zm: "0 \<le> INT_MAX" by (simp_all add: INT_MAX_def)
  have nan: "(?D ^^ nat (j - 0 + 1)) ?ws = \<lparr>w = NaN, b = NaN\<rparr>" if "0 \<le> j" for j
  proof -
    have "nat (j - 0 + 1) = Suc (nat j)" using that by simp
    then show ?thesis by (simp only: descend_empty_funpow [OF v(1,2,3) assms(4)])
  qed
  have mp: "map (\<lambda>j. (j, w ((?D ^^ nat (j - 0 + 1)) ?ws), b ((?D ^^ nat (j - 0 + 1)) ?ws)))
              (filter (\<lambda>j. j smod every cfg = 0) [0..iterations cfg])
          = map (\<lambda>i. (i, NaN, NaN)) (filter (\<lambda>i. i smod every cfg = 0) [0..iterations cfg])"
  proof (rule map_cong [OF refl])
    fix j
    assume "j \<in> set (filter (\<lambda>j. j smod every cfg = 0) [0..iterations cfg])"
    then have "0 \<le> j" by simp
    then show "(j, w ((?D ^^ nat (j - 0 + 1)) ?ws), b ((?D ^^ nat (j - 0 + 1)) ?ws)) = (j, NaN, NaN)"
      by (simp only: nan Weights.simps)
  qed
  have lp: "training_loop x y cfg 0 ?ws [] =
      \<lparr>fault = (if 0 \<le> iterations cfg \<and> INT_MAX \<le> iterations cfg then Some Signed_overflow else None),
       weights = (?D ^^ nat (iterations cfg + 1 - 0)) ?ws,
       printed = [] @ map (\<lambda>i. (i, NaN, NaN)) (filter (\<lambda>i. i smod every cfg = 0) [0..iterations cfg])\<rparr>"
    unfolding training_loop_run [OF v(1,2,3) assms(8) z zm] m mp ..
  show ?thesis
    unfolding main_trains [OF assms(1,2,3,5,6,7)] lp by (auto simp: Let_def)
qed

theorem empty_input_is_trained_on_witness:
  "read_pairs [] new_intvec new_intvec = Inr (new_intvec, new_intvec) \<and>
   size_vec new_intvec = 0 \<and>
   read_settings (\<lambda>v. if v = ''3'' then Finite 3 else Finite 0)
       (''iterations 3'' @ [CHR 0x0A] @ ''foo 1'') (default_settings, [])
     = Inr (default_settings\<lparr>iterations := 3\<rparr>, [Unknown_key ''foo'']) \<and>
   stderr (main (\<lambda>v. if v = ''3'' then Finite 3 else Finite 0)
            \<lparr>argc = 3, pairs_file = Some [],
             settings_file = Some (''iterations 3'' @ [CHR 0x0A] @ ''foo 1''),
             writable = (\<lambda>name. True)\<rparr>) = [Unknown_key ''foo''] \<and>
   stdout (main (\<lambda>v. if v = ''3'' then Finite 3 else Finite 0)
            \<lparr>argc = 3, pairs_file = Some [],
             settings_file = Some (''iterations 3'' @ [CHR 0x0A] @ ''foo 1''),
             writable = (\<lambda>name. True)\<rparr>) = [(0, NaN, NaN)]"
proof -
  let ?atof = "\<lambda>v. if v = ''3'' then Finite 3 else Finite 0"
  let ?t = "''iterations 3'' @ [CHR 0x0A] @ ''foo 1''"
  let ?env = "\<lparr>argc = 3, pairs_file = Some [], settings_file = Some ?t,
               writable = (\<lambda>name. True)\<rparr>"
  let ?cfg = "default_settings\<lparr>iterations := 3\<rparr>"
  have rp: "read_pairs [] new_intvec new_intvec = Inr (new_intvec, new_intvec)"
    by (simp add: read_pairs.simps scan_eval)
  have rs: "read_settings ?atof ?t (default_settings, []) = Inr (?cfg, [Unknown_key ''foo''])"
    by (simp add: read_settings.simps scan_eval set_option_def)
  have a1: "argc ?env = 2 \<or> argc ?env = 3" and a2: "pairs_file ?env = Some []"
    and a4: "argc ?env = 3 \<longrightarrow> settings_file ?env = Some ?t"
    by simp_all
  have a5: "(if argc ?env = 3 then read_settings ?atof ?t (default_settings, [])
             else Inr (default_settings, [])) = Inr (?cfg, [Unknown_key ''foo''])"
    using rs by simp
  have a6: "output_name ?cfg = [] \<or> writable ?env (output_name ?cfg)" by simp
  have e: "every ?cfg \<noteq> 0" and i: "iterations ?cfg \<le> INT_MAX"
    by (simp_all add: default_settings_def INT_MAX_def)
  have o: "output_name ?cfg = []" by (simp add: default_settings_def)
  have fl: "filter (\<lambda>j. j smod 100 = 0) [0..3] = [0::int]"
    by (simp add: upto_rec1 signed_modulo_int_def)
  note r = empty_input_is_trained_on [OF a1 a2 rp size_new_intvec a4 a5 a6 e i]
  have f: "file_out (main ?atof ?env) = []"
    using r [THEN conjunct2, THEN conjunct2, THEN conjunct1] o by simp
  have "stdout (main ?atof ?env) @ file_out (main ?atof ?env) = [(0, NaN, NaN)]"
    unfolding r [THEN conjunct2, THEN conjunct1] by (simp add: default_settings_def fl)
  then have "stdout (main ?atof ?env) = [(0, NaN, NaN)]" unfolding f by simp
  moreover have "stderr (main ?atof ?env) = [Unknown_key ''foo'']"
    by (rule r [THEN conjunct1])
  ultimately have "stderr (main ?atof ?env) = [Unknown_key ''foo'']"
    and "stdout (main ?atof ?env) = [(0, NaN, NaN)]"
    by simp_all
  with rp rs size_new_intvec show ?thesis by simp
qed

section \<open>The gradient and the order of the samples\<close>

lemma terms_of_permuted:
  assumes "length xs = length ys" and "set p \<subseteq> {0..<length xs}"
  shows "map (\<lambda>(xi, yi). f xi yi) (zip (map ((!) xs) p) (map ((!) ys) p))
           = map ((!) (map (\<lambda>(xi, yi). f xi yi) (zip xs ys))) p"
proof -
  have "zip (map ((!) xs) p) (map ((!) ys) p) = map (\<lambda>i. (xs ! i, ys ! i)) p"
    by (induction p) simp_all
  moreover have "map (\<lambda>i. f (xs ! i) (ys ! i)) p = map ((!) (map (\<lambda>(xi, yi). f xi yi) (zip xs ys))) p"
  proof (rule map_cong [OF refl])
    fix i
    assume "i \<in> set p"
    with assms have "i < length (zip xs ys)" by auto
    then show "f (xs ! i) (ys ! i) = map (\<lambda>(xi, yi). f xi yi) (zip xs ys) ! i" by simp
  qed
  ultimately show ?thesis by (simp add: comp_def)
qed

lemma mset_permuted:
  assumes "mset p = mset [0..<length ts]"
  shows "mset (map ((!) ts) p) = mset ts"
proof -
  have "mset (map ((!) ts) p) = image_mset ((!) ts) (mset p)" by simp
  also have "\<dots> = mset (map ((!) ts) [0..<length ts])" unfolding assms by simp
  also have "\<dots> = mset ts" by (simp add: map_nth)
  finally show ?thesis .
qed

text \<open>
  Claim C6 says that permuting \<open>x\<close> and \<open>y\<close> by the same mapping of the indices leaves the
  gradient unchanged. The sums are sums of doubles, which round. With \<open>w = 2^53\<close>, \<open>b = 0\<close>,
  \<open>x = [1, 0, 0, 0]\<close> and \<open>y = [0, -1, -1, 0]\<close> the residuals are \<open>2^53, 1, 1, 0\<close>; in this
  order each \<open>1\<close> is lost to rounding and \<open>db = 2^53 / 4\<close>. Moving the first sample of both
  series to the end accumulates \<open>1 + 1 + 0 + 2^53\<close>, which is exact, and
  \<open>db = (2^53 + 2) / 4\<close>.
\<close>

theorem gradient_permutation_invariant_counterexample:
  "gradient \<lparr>data = [Some 1, Some 0, Some 0, Some 0], size_vec = 4, capacity = 4\<rparr>
            \<lparr>data = [Some 0, Some (- 1), Some (- 1), Some 0], size_vec = 4, capacity = 4\<rparr>
            \<lparr>w = Finite 9007199254740992, b = Finite 0\<rparr>
     = Inr \<lparr>w = Finite 2251799813685248, b = Finite 2251799813685248\<rparr> \<and>
   gradient \<lparr>data = [Some 0, Some 0, Some 0, Some 1], size_vec = 4, capacity = 4\<rparr>
            \<lparr>data = [Some (- 1), Some (- 1), Some 0, Some 0], size_vec = 4, capacity = 4\<rparr>
            \<lparr>w = Finite 9007199254740992, b = Finite 0\<rparr>
     = Inr \<lparr>w = Finite 2251799813685248, b = Finite (4503599627370497 / 2)\<rparr>"
proof -
  let ?x = "\<lparr>data = [Some 1, Some 0, Some 0, Some 0], size_vec = 4, capacity = 4\<rparr>"
  let ?y = "\<lparr>data = [Some 0, Some (- 1), Some (- 1), Some 0], size_vec = 4, capacity = 4\<rparr>"
  let ?x' = "\<lparr>data = [Some 0, Some 0, Some 0, Some 1], size_vec = 4, capacity = 4\<rparr>"
  let ?y' = "\<lparr>data = [Some (- 1), Some (- 1), Some 0, Some 0], size_vec = 4, capacity = 4\<rparr>"
  let ?ws = "\<lparr>w = Finite 9007199254740992, b = Finite 0\<rparr>"
  have wf: "wf_vec ?x" "wf_vec ?y" "wf_vec ?x'" "wf_vec ?y'" by (simp_all add: vec_eval)
  have sz: "size_vec ?x = size_vec ?y" "size_vec ?x' = size_vec ?y'" by simp_all
  have g: "gradient ?x ?y ?ws
     = Inr \<lparr>w = Finite 2251799813685248, b = Finite 2251799813685248\<rparr>"
    unfolding gradient_closed [OF wf(1,2) sz(1)]
    apply (simp add: dw_terms_def db_terms_def residual_def contents_def dsum_def)
    apply (simp add: double_eval)
    done
  have g': "gradient ?x' ?y' ?ws
     = Inr \<lparr>w = Finite 2251799813685248, b = Finite (4503599627370497 / 2)\<rparr>"
    unfolding gradient_closed [OF wf(3,4) sz(2)]
    apply (simp add: dw_terms_def db_terms_def residual_def contents_def dsum_def)
    apply (simp add: double_eval)
    done
  from g g' show ?thesis by simp
qed

text \<open>
  Claim C6, amended. For series \<open>x\<close>, \<open>y\<close> of the same length \<open>n > 0\<close>, weights \<open>(w, b)\<close> and a
  permutation \<open>p\<close> of the indices: permuting \<open>x\<close> and \<open>y\<close> by \<open>p\<close> permutes the contributions
  \<open>(w * x[i] + b - y[i]) * x[i]\<close> and \<open>w * x[i] + b - y[i]\<close> of the samples by \<open>p\<close>, and the
  gradient of the permuted series is the mean of these same contributions (the same
  multiset), accumulated in the permuted order; accumulated in double arithmetic, it can
  differ from the gradient of \<open>x\<close>, \<open>y\<close>. When only one of the series is permuted the
  contributions change, and the gradient in general: for \<open>x = [1, 2]\<close>, \<open>w = b = 0\<close> it is
  \<open>(-2.5, -1.5)\<close> for \<open>y = [1, 2]\<close> and \<open>(-2, -1.5)\<close> for \<open>y = [2, 1]\<close>.
\<close>

theorem gradient_of_permuted_series:
  assumes "wf_vec x" and "wf_vec y" and "size_vec x = size_vec y" and "0 < size_vec x"
    and "wf_vec x'" and "wf_vec y'"
    and "mset p = mset [0..<size_vec x]"
    and "contents x' = map ((!) (contents x)) p" and "contents y' = map ((!) (contents y)) p"
  shows "gradient x y ws =
           Inr \<lparr>w = dsum (dw_terms ws (contents x) (contents y)) / double_of_size (size_vec x),
                b = dsum (db_terms ws (contents x) (contents y)) / double_of_size (size_vec x)\<rparr> \<and>
         gradient x' y' ws =
           Inr \<lparr>w = dsum (map ((!) (dw_terms ws (contents x) (contents y))) p)
                      / double_of_size (size_vec x),
                b = dsum (map ((!) (db_terms ws (contents x) (contents y))) p)
                      / double_of_size (size_vec x)\<rparr> \<and>
         mset (map ((!) (dw_terms ws (contents x) (contents y))) p)
           = mset (dw_terms ws (contents x) (contents y)) \<and>
         mset (map ((!) (db_terms ws (contents x) (contents y))) p)
           = mset (db_terms ws (contents x) (contents y)) \<and>
         gradient \<lparr>data = [Some 1, Some 2], size_vec = 2, capacity = 2\<rparr>
                  \<lparr>data = [Some 1, Some 2], size_vec = 2, capacity = 2\<rparr>
                  \<lparr>w = Finite 0, b = Finite 0\<rparr>
           = Inr \<lparr>w = Finite (- 5 / 2), b = Finite (- 3 / 2)\<rparr> \<and>
         gradient \<lparr>data = [Some 1, Some 2], size_vec = 2, capacity = 2\<rparr>
                  \<lparr>data = [Some 2, Some 1], size_vec = 2, capacity = 2\<rparr>
                  \<lparr>w = Finite 0, b = Finite 0\<rparr>
           = Inr \<lparr>w = Finite (- 2), b = Finite (- 3 / 2)\<rparr>"
proof -
  let ?xs = "contents x" and ?ys = "contents y"
  have len: "length ?xs = size_vec x" "length ?ys = size_vec x"
    using assms(1,2,3) by (simp_all add: wf_vec_length)
  have lp: "length p = size_vec x" using mset_eq_length [OF assms(7)] by simp
  have sp: "set p \<subseteq> {0..<length ?xs}" using mset_eq_setD [OF assms(7)] len by simp
  have sz': "size_vec x' = size_vec x" "size_vec y' = size_vec x"
    using wf_vec_length [OF assms(5)] wf_vec_length [OF assms(6)] assms(8,9) lp by simp_all
  have le: "length ?xs = length ?ys" using len by simp
  have dw: "dw_terms ws (contents x') (contents y') = map ((!) (dw_terms ws ?xs ?ys)) p"
    unfolding dw_terms_def assms(8,9) by (rule terms_of_permuted [OF le sp])
  have db: "db_terms ws (contents x') (contents y') = map ((!) (db_terms ws ?xs ?ys)) p"
    unfolding db_terms_def assms(8,9) by (rule terms_of_permuted [OF le sp])
  have g: "gradient x y ws =
           Inr \<lparr>w = dsum (dw_terms ws ?xs ?ys) / double_of_size (size_vec x),
                b = dsum (db_terms ws ?xs ?ys) / double_of_size (size_vec x)\<rparr>"
    by (rule gradient_closed [OF assms(1,2,3)])
  have g': "gradient x' y' ws =
           Inr \<lparr>w = dsum (map ((!) (dw_terms ws ?xs ?ys)) p) / double_of_size (size_vec x),
                b = dsum (map ((!) (db_terms ws ?xs ?ys)) p) / double_of_size (size_vec x)\<rparr>"
    using gradient_closed [OF assms(5,6), of ws] sz' by (simp add: dw db)
  have ldw: "length (dw_terms ws ?xs ?ys) = size_vec x" and ldb: "length (db_terms ws ?xs ?ys) = size_vec x"
    using len by (simp_all add: dw_terms_def db_terms_def)
  have mw: "mset (map ((!) (dw_terms ws ?xs ?ys)) p) = mset (dw_terms ws ?xs ?ys)"
    by (rule mset_permuted) (simp add: ldw assms(7))
  have mb: "mset (map ((!) (db_terms ws ?xs ?ys)) p) = mset (db_terms ws ?xs ?ys)"
    by (rule mset_permuted) (simp add: ldb assms(7))
  let ?a = "\<lparr>data = [Some 1, Some 2], size_vec = 2, capacity = 2\<rparr>"
  let ?c = "\<lparr>data = [Some 2, Some 1], size_vec = 2, capacity = 2\<rparr>"
  have wf: "wf_vec ?a" "wf_vec ?c" by (simp_all add: vec_eval)
  have sac: "size_vec ?a = size_vec ?c" by simp
  have e1: "gradient ?a ?a \<lparr>w = Finite 0, b = Finite 0\<rparr>
           = Inr \<lparr>w = Finite (- 5 / 2), b = Finite (- 3 / 2)\<rparr>"
    unfolding gradient_closed [OF wf(1) wf(1) refl]
    apply (simp add: dw_terms_def db_terms_def residual_def contents_def dsum_def)
    apply (simp add: double_eval)
    done
  have e2: "gradient ?a ?c \<lparr>w = Finite 0, b = Finite 0\<rparr>
           = Inr \<lparr>w = Finite (- 2), b = Finite (- 3 / 2)\<rparr>"
    unfolding gradient_closed [OF wf(1) wf(2) sac]
    apply (simp add: dw_terms_def db_terms_def residual_def contents_def dsum_def)
    apply (simp add: double_eval)
    done
  from g g' mw mb e1 e2 show ?thesis by blast
qed

theorem gradient_of_permuted_series_witness:
  "wf_vec \<lparr>data = [Some 1, Some 2], size_vec = 2, capacity = 2\<rparr> \<and>
   wf_vec \<lparr>data = [Some 3, Some 5], size_vec = 2, capacity = 2\<rparr> \<and>
   wf_vec \<lparr>data = [Some 2, Some 1], size_vec = 2, capacity = 2\<rparr> \<and>
   wf_vec \<lparr>data = [Some 5, Some 3], size_vec = 2, capacity = 2\<rparr> \<and>
   mset [1, 0] = mset [0..<2] \<and>
   gradient \<lparr>data = [Some 2, Some 1], size_vec = 2, capacity = 2\<rparr>
            \<lparr>data = [Some 5, Some 3], size_vec = 2, capacity = 2\<rparr>
            \<lparr>w = Finite 0, b = Finite 0\<rparr>
     = Inr \<lparr>w = Finite (- 13 / 2), b = Finite (- 4)\<rparr>"
proof -
  let ?x = "\<lparr>data = [Some 1, Some 2], size_vec = 2, capacity = 2\<rparr>"
  let ?y = "\<lparr>data = [Some 3, Some 5], size_vec = 2, capacity = 2\<rparr>"
  let ?x' = "\<lparr>data = [Some 2, Some 1], size_vec = 2, capacity = 2\<rparr>"
  let ?y' = "\<lparr>data = [Some 5, Some 3], size_vec = 2, capacity = 2\<rparr>"
  have wf: "wf_vec ?x" "wf_vec ?y" "wf_vec ?x'" "wf_vec ?y'" by (simp_all add: vec_eval)
  have up: "[0..<2] = [0, 1]" by (simp add: upt_rec)
  have p: "mset [1, 0] = mset [0..<size_vec ?x]" by (simp add: up)
  have p2: "mset [1, 0] = mset [0..<2]" by (simp add: up)
  have cx: "contents ?x' = map ((!) (contents ?x)) [1, 0]"
    and cy: "contents ?y' = map ((!) (contents ?y)) [1, 0]"
    by (simp_all add: contents_def)
  have sz: "size_vec ?x = size_vec ?y" "0 < size_vec ?x" by simp_all
  note r = gradient_of_permuted_series [OF wf(1,2) sz wf(3,4) p cx cy,
      of "\<lparr>w = Finite 0, b = Finite 0\<rparr>", THEN conjunct2, THEN conjunct1]
  have "gradient ?x' ?y' \<lparr>w = Finite 0, b = Finite 0\<rparr>
     = Inr \<lparr>w = Finite (- 13 / 2), b = Finite (- 4)\<rparr>"
    unfolding r
    apply (simp add: dw_terms_def db_terms_def residual_def contents_def dsum_def)
    apply (simp add: double_eval)
    done
  with wf p2 show ?thesis by simp
qed

end
